theory Spec2Isabelle
  imports Complex_Main
begin

section \<open>Data model of the fusion runner\<close>

text \<open>
  The exceptions that the modelled code can raise. \<open>ReadError\<close> stands for whatever the
  tile reader raises when a tile cannot be opened or read.
\<close>

datatype error = IndexError | ZeroDivisionError | ValueError | AxisError | ReadError

text \<open>
  One row of \<open>fm.data_frame\<close>: the index of the row is the tile's path (\<open>name\<close>), the
  columns are the tile's origin and its frame count.
\<close>

record row =
  name :: string
  Xs :: int
  Ys :: int
  Zs :: int
  nfrms :: int

text \<open>
  One row of the frame returned by \<open>fm.overlaps(index)\<close>. Only the columns \<open>Z_from\<close> and
  \<open>Z_to\<close> are touched by the runner; every other column lives in the record extension.
\<close>

record overlap =
  Z_from :: int
  Z_to :: int

text \<open>
  The \<open>FileMatrix\<close> as the runner sees it. Its class is outside the sources: the full
  extents and the overlap lookup are taken as given.
\<close>

record 'o file_matrix =
  data_frame :: "row list"
  full_thickness :: int
  full_height :: int
  full_width :: int
  overlaps :: "string \<Rightarrow> 'o overlap_scheme list"

text \<open>The item put on the queue: \<open>[slice, top_left, overlaps]\<close>.\<close>

record ('s, 'o) placement =
  tile_slice :: 's
  top_left :: "int list"
  clipped :: "'o overlap_scheme list"

section \<open>The per-tile body of the chunk loop\<close>

text \<open>
  Lines 123 to 140 of \<open>fuse_runner.py\<close>: the tile-local frame range read for the window
  \<open>[zmin, zmax)\<close>, or \<open>None\<close> where the loop body executes \<open>continue\<close>.
\<close>

definition z_range :: "int \<Rightarrow> int option \<Rightarrow> 'a row_scheme \<Rightarrow> (int \<times> int) option" where
  "z_range zmin' zmax' r =
     (let z_to = (case zmax' of None \<Rightarrow> nfrms r | Some zm \<Rightarrow> zm - Zs r);
          z_to = (if z_to > nfrms r then nfrms r else z_to)
      in if z_to \<le> 0 then None
         else
           let z_from = zmin' - Zs r;
               z_from = (if z_from < 0 then 0 else z_from)
           in if z_from \<ge> z_to then None else Some (z_from, z_to))"

text \<open>Lines 151 to 158: the overlaps forwarded with a slice read over \<open>[z_from, z_to)\<close>.\<close>

definition clip_overlaps ::
  "int \<Rightarrow> int \<Rightarrow> 'o overlap_scheme list \<Rightarrow> 'o overlap_scheme list" where
  "clip_overlaps z_from z_to ovs =
     (let ovs1 = filter (\<lambda>ov. Z_from ov \<le> z_to \<and> Z_to ov \<ge> z_from) ovs;
          ovs2 = map (\<lambda>ov. ov\<lparr>Z_from := Z_from ov - z_from\<rparr>) ovs1;
          ovs3 = map (\<lambda>ov. ov\<lparr>Z_to := Z_to ov - z_from\<rparr>) ovs2
      in map (\<lambda>ov. if Z_from ov < 0 then ov\<lparr>Z_from := 0\<rparr> else ov) ovs3)"

section \<open>Numeric type conversion\<close>

text \<open>
  A numpy dtype: an integer type (signed or not, with its width in bits) or a floating
  type (with its width in bits).
\<close>

datatype dtype = Int_dtype bool nat | Float_dtype nat

definition itemsize :: "dtype \<Rightarrow> int" where
  "itemsize d = (case d of Int_dtype _ b \<Rightarrow> int b div 8 | Float_dtype b \<Rightarrow> int b div 8)"

definition issubdtype_integer :: "dtype \<Rightarrow> bool" where
  "issubdtype_integer d = (case d of Int_dtype _ _ \<Rightarrow> True | Float_dtype _ \<Rightarrow> False)"

text \<open>
  The values of a float32 buffer are dyadic rationals, so a finite buffer value is a
  \<open>rat\<close>. \<open>np.rint\<close> rounds to the nearest integer, ties to the even one; its result
  is again a float32 value, so it is exact.
\<close>

definition rint :: "rat \<Rightarrow> rat" where
  "rint x =
     (let f = \<lfloor>x\<rfloor>; d = x - of_int f
      in of_int (if d < 1 / 2 then f
                 else if 1 / 2 < d then f + 1
                 else if even f then f else f + 1))"

datatype elem = Int_elem int | Float_elem rat

definition in_range :: "dtype \<Rightarrow> int \<Rightarrow> bool" where
  "in_range d v =
     (case d of
        Int_dtype signed b \<Rightarrow>
          (if signed then - (2 ^ (b - 1)) \<le> v \<and> v < 2 ^ (b - 1) else 0 \<le> v \<and> v < 2 ^ b)
      | Float_dtype _ \<Rightarrow> False)"

text \<open>
  \<open>astype\<close> on one element. The cast to an integer type truncates towards zero; numpy
  leaves the result for a value outside the target range to the platform, and so does
  the model (\<open>None\<close>). A cast to float32 or float64 keeps a float32 value as it is; the
  narrowing cast to a smaller floating type is not modelled (\<open>None\<close>).
\<close>

definition astype :: "dtype \<Rightarrow> rat \<Rightarrow> elem option" where
  "astype d x =
     (case d of
        Int_dtype signed b \<Rightarrow>
          (let v = (if 0 \<le> x then \<lfloor>x\<rfloor> else \<lceil>x\<rceil>)
           in if in_range d v then Some (Int_elem v) else None)
      | Float_dtype b \<Rightarrow> (if 32 \<le> b then Some (Float_elem x) else None))"

text \<open>\<open>to_dtype\<close>, lines 20 to 23, on the flattened buffer.\<close>

definition to_dtype :: "rat list \<Rightarrow> dtype \<Rightarrow> elem option list" where
  "to_dtype x d =
     (let x = (if issubdtype_integer d then map rint x else x)
      in map (astype d) x)"

text \<open>Reading an output element back as a number.\<close>

definition elem_value :: "elem \<Rightarrow> rat" where
  "elem_value e = (case e of Int_elem v \<Rightarrow> of_int v | Float_elem x \<Rightarrow> x)"

section \<open>The runner\<close>

text \<open>
  The state of a \<open>FuseRunner\<close> and the part of its environment that \<open>run\<close> reads:
  \<^item> \<open>dtype\<close>, \<open>is_multichannel\<close> and \<open>tile_shape\<close> are what the first tile's
    \<open>InputFile\<close> reports (\<open>f.dtype\<close>, \<open>f.nchannels > 1\<close>, \<open>f.shape\<close>);
  \<^item> \<open>ram\<close> is \<open>psutil.virtual_memory().total\<close>;
  \<^item> \<open>read_slice index z_from z_to\<close> is the result of opening the tile and calling
    \<open>f.slice(z_from, z_to, dtype=np.float32, copy=True)\<close>.
  \<open>InputFile\<close> is outside the sources, so these are taken as given. The debug overlay
  is cosmetic and left out: the model is of a runner with \<open>debug = False\<close>.
\<close>

record ('s, 'o) runner =
  fm :: "'o file_matrix"
  zmin :: int
  zmax :: "int option"
  dtype :: dtype
  is_multichannel :: bool
  tile_shape :: "int list"
  ram :: nat
  read_slice :: "string \<Rightarrow> int \<Rightarrow> int \<Rightarrow> error + 's"

text \<open>
  What \<open>run\<close> does to the outside world and to the window, in order: the removal of the
  output file, the writes to \<open>self.zmax\<close> and \<open>self.zmin\<close>, the allocation of the
  buffer (with its shape), the consumer thread's start and join, the queue puts, and the
  append to the output file (with the saved shape, the output dtype and the
  \<open>bigtiff\<close> flag).
\<close>

datatype ('s, 'o) event =
    Remove_output
  | Set_zmax int
  | Zeros "int list"
  | Thread_start
  | Put "('s, 'o) placement"
  | Put_close
  | Thread_join
  | Imsave "int list" dtype bool
  | Set_zmin int

text \<open>Python's \<open>xs[i] = v\<close> on a list: a negative index counts from the end.\<close>

definition set_item :: "'a list \<Rightarrow> int \<Rightarrow> 'a \<Rightarrow> error + 'a list" where
  "set_item xs i v =
     (let j = (if i < 0 then i + int (length xs) else i)
      in if j < 0 \<or> int (length xs) \<le> j then Inl IndexError
         else Inr (xs[nat j := v]))"

text \<open>
  The property \<open>output_shape\<close>, lines 70 to 84. \<open>iloc[0]\<close> raises on an empty data
  frame.
\<close>

definition output_shape :: "('s, 'o, 'z) runner_scheme \<Rightarrow> error + int list" where
  "output_shape st =
     (let thickness = full_thickness (fm st);
          thickness = (case zmax st of
                         Some zm \<Rightarrow> thickness - (thickness - zm)
                       | None \<Rightarrow> thickness);
          thickness = thickness - zmin st
      in if data_frame (fm st) = [] then Inl IndexError
         else
           case set_item (tile_shape st) 0 thickness of
             Inl e \<Rightarrow> Inl e
           | Inr s0 \<Rightarrow>
               (case set_item s0 (- 2) (full_height (fm st)) of
                  Inl e \<Rightarrow> Inl e
                | Inr s1 \<Rightarrow> set_item s1 (- 1) (full_width (fm st))))"

text \<open>
  Lines 88 and 89: each of the columns \<open>Xs\<close>, \<open>Ys\<close>, \<open>Zs\<close> of the data frame is
  shifted, in place, by its minimum. On an empty column the minimum is not used.
\<close>

fun column_min :: "int list \<Rightarrow> int" where
  "column_min [] = 0"
| "column_min (x # xs) = fold min xs x"

definition normalize :: "row list \<Rightarrow> row list" where
  "normalize df =
     (let df = map (\<lambda>r. r\<lparr>Xs := Xs r - column_min (map Xs df)\<rparr>) df;
          df = map (\<lambda>r. r\<lparr>Ys := Ys r - column_min (map Ys df)\<rparr>) df;
          df = map (\<lambda>r. r\<lparr>Zs := Zs r - column_min (map Zs df)\<rparr>) df
      in df)"

text \<open>
  Line 93. The constant is the binary64 value of \<open>0.95 * 2**32\<close>, which is
  \<open>4278419646001971 / 2^20\<close> (a little below 4080218931.2); Python compares the integer
  byte size with it exactly.
\<close>

definition bigtiff_threshold :: rat where
  "bigtiff_threshold = 4278419646001971 / 2 ^ 20"

definition bigtiff_decision :: "int \<Rightarrow> bool" where
  "bigtiff_decision total_byte_size =
     (if of_int total_byte_size > bigtiff_threshold then True else False)"


definition wrap_int64 :: "int \<Rightarrow> int" where
  "wrap_int64 x = (x + 2 ^ 63) mod 2 ^ 64 - 2 ^ 63"

definition np_prod :: "int list \<Rightarrow> int" where
  "np_prod xs = fold (\<lambda>x acc. wrap_int64 (acc * x)) xs 1"

definition total_byte_size :: "int list \<Rightarrow> dtype \<Rightarrow> int" where
  "total_byte_size shp d = wrap_int64 (np_prod shp * itemsize d)"

definition xy_size :: "int list \<Rightarrow> int" where
  "xy_size shp = wrap_int64 (np_prod (drop 1 shp) * 4)"

text \<open>
  Line 99, \<open>int(ram / xy_size / 1.5)\<close>: a division by zero raises, \<open>int\<close> truncates
  towards zero. Python computes the quotient in binary64; the model computes it exactly.
\<close>

definition n_frames_in_ram :: "nat \<Rightarrow> int \<Rightarrow> error + int" where
  "n_frames_in_ram ram' xy_size' =
     (if xy_size' = 0 then Inl ZeroDivisionError
      else
        let q = (of_nat ram' / of_int xy_size' / (3 / 2) :: rat)
        in Inr (if 0 \<le> q then \<lfloor>q\<rfloor> else \<lceil>q\<rceil>))"

text \<open>
  Lines 101 to 106: the list of chunk thicknesses for the depth \<open>D = output_shape[0]\<close>
  and the chunk size \<open>n = n_frames_in_ram\<close>. \<open>//\<close> and \<open>%\<close> round towards minus
  infinity, as \<open>div\<close> and \<open>mod\<close> do, and raise on a zero divisor; \<open>range(0, k)\<close> is empty
  for a negative \<open>k\<close>.
\<close>

definition partial_thickness :: "int \<Rightarrow> int \<Rightarrow> error + int list" where
  "partial_thickness D n =
     (if n = 0 then Inl ZeroDivisionError
      else
        let n_loops = D div n;
            remainder = D mod n
        in Inr (replicate (nat n_loops) n @ (if remainder \<noteq> 0 then [remainder] else [])))"

text \<open>
  Lines 123 to 160, the body of the loop over the tiles: what one row puts on the queue.
  The result is the list of its placements (none where the body executes \<open>continue\<close>),
  or the error of the read.
\<close>

definition place_tile ::
  "('s, 'o, 'z) runner_scheme \<Rightarrow> row \<Rightarrow> error + ('s, 'o) placement list" where
  "place_tile st r =
     (case z_range (zmin st) (zmax st) r of
        None \<Rightarrow> Inr []
      | Some (z_from, z_to) \<Rightarrow>
          (case read_slice st (name r) z_from z_to of
             Inl e \<Rightarrow> Inl e
           | Inr s \<Rightarrow>
               Inr [\<lparr>tile_slice = s,
                     top_left = [Zs r + z_from - zmin st, Ys r, Xs r],
                     clipped = clip_overlaps z_from z_to (overlaps (fm st) (name r))\<rparr>]))"

text \<open>Line 122: the loop over the rows; it stops at the first read that raises.\<close>

fun put_tiles ::
  "('s, 'o, 'z) runner_scheme \<Rightarrow> row list \<Rightarrow> ('s, 'o) event list \<times> error option" where
  "put_tiles st [] = ([], None)"
| "put_tiles st (r # rs) =
     (case place_tile st r of
        Inl e \<Rightarrow> ([], Some e)
      | Inr ps \<Rightarrow>
          (case put_tiles st rs of (evs, res) \<Rightarrow> (map Put ps @ evs, res)))"

text \<open>The shape of \<open>np.moveaxis(fused, -3, -1)\<close>.\<close>

definition moveaxis_shape :: "int list \<Rightarrow> error + int list" where
  "moveaxis_shape shp =
     (let k = length shp
      in if k < 3 then Inl AxisError
         else Inr (take (k - 3) shp @ drop (k - 2) shp @ [shp ! (k - 3)]))"

text \<open>
  Lines 114 to 174, the body of the loop over the thicknesses. \<open>np.zeros\<close> raises on a
  negative dimension. The voxels of the buffer are the blending engine's work and are
  not part of the model.
\<close>

definition run_chunk ::
  "('s, 'o) runner \<Rightarrow> bool \<Rightarrow> int \<Rightarrow> ('s, 'o) runner \<times> ('s, 'o) event list \<times> error option" where
  "run_chunk st bigtiff thickness =
     (let st = st\<lparr>zmax := Some (zmin st + thickness)\<rparr>;
          ev0 = [Set_zmax (zmin st + thickness)]
      in case output_shape st of
           Inl e \<Rightarrow> (st, ev0, Some e)
         | Inr shp \<Rightarrow>
             if list_ex (\<lambda>d. d < 0) shp then (st, ev0, Some ValueError)
             else
               (case put_tiles st (data_frame (fm st)) of
                  (puts, Some e) \<Rightarrow> (st, ev0 @ [Zeros shp, Thread_start] @ puts, Some e)
                | (puts, None) \<Rightarrow>
                    (let ev1 = ev0 @ [Zeros shp, Thread_start] @ puts @ [Put_close, Thread_join]
                     in (case (if is_multichannel st then moveaxis_shape shp else Inr shp) of
                           Inl e \<Rightarrow> (st, ev1, Some e)
                         | Inr shp' \<Rightarrow>
                             (st\<lparr>zmin := zmin st + thickness\<rparr>,
                              ev1 @ [Imsave shp' (dtype st) bigtiff, Set_zmin (zmin st + thickness)],
                              None)))))"

text \<open>Line 113: the loop over the thicknesses; an error ends it.\<close>

fun run_chunks ::
  "('s, 'o) runner \<Rightarrow> bool \<Rightarrow> int list \<Rightarrow> ('s, 'o) runner \<times> ('s, 'o) event list \<times> error option" where
  "run_chunks st bigtiff [] = (st, [], None)"
| "run_chunks st bigtiff (t # ts) =
     (case run_chunk st bigtiff t of
        (st1, evs, Some e) \<Rightarrow> (st1, evs, Some e)
      | (st1, evs, None) \<Rightarrow>
          (case run_chunks st1 bigtiff ts of (st2, evs', res) \<Rightarrow> (st2, evs @ evs', res)))"

text \<open>
  \<open>run\<close>, lines 86 to 174: the final state, the events in order, and the exception that
  ended the run, if any.
\<close>

definition normalized :: "('s, 'o) runner \<Rightarrow> ('s, 'o) runner" where
  "normalized st = st\<lparr>fm := (fm st)\<lparr>data_frame := normalize (data_frame (fm st))\<rparr>\<rparr>"

definition run ::
  "('s, 'o) runner \<Rightarrow> ('s, 'o) runner \<times> ('s, 'o) event list \<times> error option" where
  "run st =
     (let st = normalized st
      in case output_shape st of
           Inl e \<Rightarrow> (st, [], Some e)
         | Inr shp \<Rightarrow>
             (let bigtiff = bigtiff_decision (total_byte_size shp (dtype st))
              in (case n_frames_in_ram (ram st) (xy_size shp) of
                    Inl e \<Rightarrow> (st, [], Some e)
                  | Inr n \<Rightarrow>
                      (case shp of
                         [] \<Rightarrow> (st, [], Some IndexError)
                       | D # _ \<Rightarrow>
                           (case partial_thickness D n of
                              Inl e \<Rightarrow> (st, [], Some e)
                            | Inr ts \<Rightarrow>
                                (case run_chunks st bigtiff ts of
                                   (st', evs, res) \<Rightarrow> (st', Remove_output # evs, res)))))))"

section \<open>The tile reader\<close>

text \<open>
  An array by its leading axis: a single page (one frame, with no frame axis), or a
  stack of arrays along a new leading axis. The pixels of a page are kept abstract.
\<close>

datatype 'p ndarray = Page 'p | Stack "'p ndarray list"

text \<open>
  A \<open>TiffWrapper\<close>: \<open>tfile\<close> is the list of pages of the opened file, \<open>flist\<close> the
  sorted files of the directory, each with its pages (empty outside of directory mode).
\<close>

record 'p tiff_wrapper =
  glob_mode :: bool
  tfile :: "'p list"
  flist :: "'p list list"

text \<open>
  \<open>open\<close>, lines 45 to 62, on a regular file (\<open>Inl\<close>, its pages) or on a directory
  (\<open>Inr\<close>, its matching files in sorted order): \<open>flist[0]\<close> raises on an empty directory.
\<close>

definition open_tw :: "'p list + 'p list list \<Rightarrow> error + 'p tiff_wrapper" where
  "open_tw target =
     (case target of
        Inl pages \<Rightarrow> Inr \<lparr>glob_mode = False, tfile = pages, flist = []\<rparr>
      | Inr files \<Rightarrow>
          (case files of
             [] \<Rightarrow> Inl IndexError
           | fname # _ \<Rightarrow> Inr \<lparr>glob_mode = True, tfile = fname, flist = files\<rparr>))"

text \<open>The property \<open>nfrms\<close>, lines 19 to 24.\<close>

definition nfrms_tw :: "'p tiff_wrapper \<Rightarrow> int" where
  "nfrms_tw w =
     (let n = int (length (tfile w))
      in if glob_mode w then n * int (length (flist w)) else n)"

text \<open>
  The tifffile library is outside the repository; the three functions below model what
  the wrapper uses of it. An array made of the selected pages squeezes the frame axis
  when there is exactly one page, and selecting no page raises.
\<close>

definition array_of :: "'p list \<Rightarrow> 'p ndarray" where
  "array_of ps = (case ps of [p] \<Rightarrow> Page p | _ \<Rightarrow> Stack (map Page ps))"

fun select_pages :: "'p list \<Rightarrow> int list \<Rightarrow> error + 'p list" where
  "select_pages pages [] = Inr []"
| "select_pages pages (k # ks) =
     (let j = (if k < 0 then k + int (length pages) else k)
      in if j < 0 \<or> int (length pages) \<le> j then Inl IndexError
         else
           case select_pages pages ks of
             Inl e \<Rightarrow> Inl e
           | Inr ps \<Rightarrow> Inr (pages ! nat j # ps))"

text \<open>\<open>TiffFile.asarray(key)\<close> for a sequence of page indices.\<close>

definition asarray :: "'p list \<Rightarrow> int list \<Rightarrow> error + 'p ndarray" where
  "asarray pages key =
     (case select_pages pages key of
        Inl e \<Rightarrow> Inl e
      | Inr ps \<Rightarrow> if ps = [] then Inl ValueError else Inr (array_of ps))"

text \<open>
  \<open>tiff.imread(files, pattern='')\<close> for a list of files: no file raises, one file is
  read as it is, several files of one shape are stacked along a new leading axis.
\<close>

definition imread :: "'p list list \<Rightarrow> error + 'p ndarray" where
  "imread files =
     (case files of
        [] \<Rightarrow> Inl ValueError
      | f # fs \<Rightarrow>
          if list_ex (\<lambda>g. g = []) files then Inl ValueError
          else if fs = [] then Inr (array_of f)
          else if list_ex (\<lambda>g. length g \<noteq> length f) fs then Inl ValueError
          else Inr (Stack (map array_of files)))"

text \<open>Python's \<open>xs[i:j]\<close> on a list.\<close>

definition py_slice :: "'a list \<Rightarrow> int \<Rightarrow> int \<Rightarrow> 'a list" where
  "py_slice xs i j =
     (let n = int (length xs);
          a = (if i < 0 then max (i + n) 0 else min i n);
          b = (if j < 0 then max (j + n) 0 else min j n)
      in take (nat (b - a)) (drop (nat a) xs))"

text \<open>
  \<open>slice\<close>, lines 64 to 84. \<open>copy\<close> and \<open>dtype\<close> act on the pixels only and are left
  out.
\<close>

definition slice :: "'p tiff_wrapper \<Rightarrow> int \<Rightarrow> int option \<Rightarrow> error + 'p ndarray" where
  "slice w start_frame end_frame_arg =
     (let end_frame = (case end_frame_arg of None \<Rightarrow> start_frame + 1 | Some e \<Rightarrow> e);
          res =
            (if \<not> glob_mode w then asarray (tfile w) [start_frame..end_frame - 1]
             else if flist w = [] then Inl ZeroDivisionError
             else
               (let frames_per_file = nfrms_tw w div int (length (flist w))
                in if frames_per_file = 0 then Inl ZeroDivisionError
                   else
                     (let start_file = start_frame div frames_per_file;
                          end_file = end_frame div frames_per_file
                      in imread (py_slice (flist w) start_file end_file))))
      in (case res of
            Inl e \<Rightarrow> Inl e
          | Inr a \<Rightarrow> Inr (if end_frame - start_frame = 1 then Stack [a] else a)))"

text \<open>The frames of an array in order, and the length of its leading axis.\<close>

fun frames_of :: "'p ndarray \<Rightarrow> 'p list" where
  "frames_of (Page p) = [p]"
| "frames_of (Stack xs) = concat (map frames_of xs)"

definition leading_axis :: "'p ndarray \<Rightarrow> nat option" where
  "leading_axis a = (case a of Page _ \<Rightarrow> None | Stack xs \<Rightarrow> Some (length xs))"

text \<open>The logical frame sequence of a tile volume.\<close>

definition logical_frames :: "'p tiff_wrapper \<Rightarrow> 'p list" where
  "logical_frames w = (if glob_mode w then concat (flist w) else tfile w)"

section \<open>Observations on a run\<close>

text \<open>
  The projections of an event list used to state properties of a run: the queue puts, the
  writes to the window, the appends to the output file and the consumer starts.
\<close>

definition is_put :: "('s, 'o) event \<Rightarrow> bool" where
  "is_put e = (case e of Put _ \<Rightarrow> True | _ \<Rightarrow> False)"

definition window_writes :: "('s, 'o) event list \<Rightarrow> ('s, 'o) event list" where
  "window_writes evs =
     filter (\<lambda>e. case e of Set_zmax _ \<Rightarrow> True | Set_zmin _ \<Rightarrow> True | _ \<Rightarrow> False) evs"

definition appends :: "('s, 'o) event list \<Rightarrow> ('s, 'o) event list" where
  "appends evs = filter (\<lambda>e. case e of Imsave _ _ _ \<Rightarrow> True | _ \<Rightarrow> False) evs"

definition consumer_starts :: "('s, 'o) event list \<Rightarrow> ('s, 'o) event list" where
  "consumer_starts evs = filter (\<lambda>e. case e of Thread_start \<Rightarrow> True | _ \<Rightarrow> False) evs"

text \<open>
  The successive ends of the chunks that start at \<open>z\<close> and have the given thicknesses:
  the values the window is expected to take.
\<close>

fun chunk_bounds :: "int \<Rightarrow> int list \<Rightarrow> int list" where
  "chunk_bounds z [] = []"
| "chunk_bounds z (t # ts) = (z + t) # chunk_bounds (z + t) ts"

text \<open>
  The spec's words for the overlaps kept with a slice: the overlap's range meets the
  half-open interval \<open>[z_from, z_to)\<close>.
\<close>

definition intersects_half_open :: "int \<Rightarrow> int \<Rightarrow> 'o overlap_scheme \<Rightarrow> bool" where
  "intersects_half_open z_from z_to ov = (Z_from ov < z_to \<and> z_from < Z_to ov)"

text \<open>
  The depth that \<open>output_shape\<close> computes on lines 72 to 75.
\<close>

definition depth :: "('s, 'o, 'z) runner_scheme \<Rightarrow> int" where
  "depth st = (case zmax st of Some zm \<Rightarrow> zm | None \<Rightarrow> full_thickness (fm st)) - zmin st"

text \<open>
  The placements that a row contributes to the queue: those of \<open>place_tile\<close>, none if
  its read raises.
\<close>

definition tile_placements ::
  "('s, 'o, 'z) runner_scheme \<Rightarrow> row \<Rightarrow> ('s, 'o) placement list" where
  "tile_placements st r = (case place_tile st r of Inl _ \<Rightarrow> [] | Inr ps \<Rightarrow> ps)"

text \<open>The runner with its window set to \<open>[a, b)\<close>.\<close>

definition at_window :: "('s, 'o) runner \<Rightarrow> int \<Rightarrow> int \<Rightarrow> ('s, 'o) runner" where
  "at_window st a b = st\<lparr>zmin := a, zmax := Some b\<rparr>"

text \<open>
  The successive windows \<open>(zmin, zmax)\<close> of the chunks that start at \<open>z\<close> and have the
  given thicknesses.
\<close>

fun chunk_windows :: "int \<Rightarrow> int list \<Rightarrow> (int \<times> int) list" where
  "chunk_windows z [] = []"
| "chunk_windows z (t # ts) = (z, z + t) # chunk_windows (z + t) ts"

section \<open>Example inputs\<close>

text \<open>
  Two tiles of ten frames of 4 by 6 pixels, the second five frames deeper than the
  first, so that planes 5 to 10 are shared; the window is \<open>[0, 10)\<close> and the memory
  holds four planes of the output.
\<close>

definition tile_A :: row where
  "tile_A = \<lparr>name = ''A'', Xs = 0, Ys = 0, Zs = 0, nfrms = 10\<rparr>"

definition tile_B :: row where
  "tile_B = \<lparr>name = ''B'', Xs = 0, Ys = 0, Zs = 5, nfrms = 10\<rparr>"

definition example_overlaps :: "string \<Rightarrow> overlap list" where
  "example_overlaps index =
     (if index = ''A'' then [\<lparr>Z_from = 5, Z_to = 10\<rparr>]
      else if index = ''B'' then [\<lparr>Z_from = 0, Z_to = 5\<rparr>]
      else [])"

definition example_runner :: "(string \<times> int \<times> int, unit) runner" where
  "example_runner =
     \<lparr>fm = \<lparr>data_frame = [tile_A, tile_B], full_thickness = 15, full_height = 4,
             full_width = 6, overlaps = example_overlaps\<rparr>,
      zmin = 0, zmax = Some 10, dtype = Int_dtype False 16, is_multichannel = False,
      tile_shape = [10, 4, 6], ram = 576,
      read_slice = (\<lambda>index z_from z_to. Inr (index, z_from, z_to))\<rparr>"

text \<open>The same runner asked for the window \<open>[10, 7)\<close>, as \<open>--zmin 10 --zmax 7\<close> does.\<close>

definition reversed_runner :: "(string \<times> int \<times> int, unit) runner" where
  "reversed_runner = example_runner\<lparr>zmin := 10, zmax := Some 7\<rparr>"

text \<open>A table with the second tile only, whose origin is five frames deep.\<close>

definition shifted_runner :: "(string \<times> int \<times> int, unit) runner" where
  "shifted_runner = example_runner\<lparr>fm := (fm example_runner)\<lparr>data_frame := [tile_B]\<rparr>\<rparr>"

text \<open>
  The example runner on a machine whose memory is smaller than one and a half planes of
  the output (a plane takes \<open>4 * 6 * 4 = 96\<close> bytes).
\<close>

definition tight_runner :: "(string \<times> int \<times> int, unit) runner" where
  "tight_runner = example_runner\<lparr>ram := 100\<rparr>"


text \<open>
  Three tile volumes of four frames, each frame being its logical index: one stack of
  four pages, a directory of four single-frame files, and a directory of two files of
  two frames.
\<close>

definition stack_volume :: "nat tiff_wrapper" where
  "stack_volume = \<lparr>glob_mode = False, tfile = [0, 1, 2, 3], flist = []\<rparr>"

definition frame_files_volume :: "nat tiff_wrapper" where
  "frame_files_volume = \<lparr>glob_mode = True, tfile = [0], flist = [[0], [1], [2], [3]]\<rparr>"

definition stack_files_volume :: "nat tiff_wrapper" where
  "stack_files_volume = \<lparr>glob_mode = True, tfile = [0, 1], flist = [[0, 1], [2, 3]]\<rparr>"

section \<open>Lemmas on the chunk loop\<close>

lemma put_tiles_puts: "list_all is_put (fst (put_tiles st rs))"
  by (induction rs) (auto simp: is_put_def list_all_iff split: sum.splits prod.splits)

lemma filter_puts_empty:
  "list_all is_put evs \<Longrightarrow> (\<And>e. is_put e \<Longrightarrow> \<not> P e) \<Longrightarrow> filter P evs = []"
  by (induction evs) auto

lemma run_chunk_success:
  assumes "run_chunk st big t = (st1, evs, None)"
  shows "\<exists>shp shp' puts.
           evs = [Set_zmax (zmin st + t), Zeros shp, Thread_start] @ puts @
                 [Put_close, Thread_join, Imsave shp' (dtype st) big, Set_zmin (zmin st + t)] \<and>
           list_all is_put puts \<and>
           st1 = st\<lparr>zmax := Some (zmin st + t), zmin := zmin st + t\<rparr>"
proof -
  let ?st = "st\<lparr>zmax := Some (zmin st + t)\<rparr>"
  obtain shp where shp: "output_shape ?st = Inr shp" "\<not> list_ex (\<lambda>d. d < 0) shp"
    using assms by (auto simp: run_chunk_def Let_def split: sum.splits if_splits)
  obtain puts where puts: "put_tiles ?st (data_frame (fm st)) = (puts, None)"
    using assms shp
    by (cases "put_tiles ?st (data_frame (fm st))")
       (auto simp: run_chunk_def Let_def split: option.splits)
  have lp: "list_all is_put puts"
    using put_tiles_puts [of ?st "data_frame (fm st)"] puts by simp
  obtain shp' where "(if is_multichannel st then moveaxis_shape shp else Inr shp) = Inr shp'"
    using assms shp puts by (auto simp: run_chunk_def Let_def split: sum.splits if_splits)
  then show ?thesis
    using assms shp puts lp by (auto simp: run_chunk_def Let_def)
qed

lemma put_tiles_puts': "put_tiles st rs = (puts, res) \<Longrightarrow> list_all is_put puts"
  using put_tiles_puts [of st rs] by simp

lemma appends_puts: "list_all is_put evs \<Longrightarrow> appends evs = []"
  unfolding appends_def by (rule filter_puts_empty) (auto simp: is_put_def split: event.splits)

lemma window_writes_puts: "list_all is_put evs \<Longrightarrow> window_writes evs = []"
  unfolding window_writes_def by (rule filter_puts_empty) (auto simp: is_put_def split: event.splits)

lemma consumer_starts_puts: "list_all is_put evs \<Longrightarrow> consumer_starts evs = []"
  unfolding consumer_starts_def by (rule filter_puts_empty) (auto simp: is_put_def split: event.splits)

lemma appends_append: "appends (xs @ ys) = appends xs @ appends ys"
  by (simp add: appends_def)

lemma window_writes_append: "window_writes (xs @ ys) = window_writes xs @ window_writes ys"
  by (simp add: window_writes_def)

lemma consumer_starts_append:
  "consumer_starts (xs @ ys) = consumer_starts xs @ consumer_starts ys"
  by (simp add: consumer_starts_def)

lemma run_chunk_fm: "run_chunk st big t = (st1, evs, res) \<Longrightarrow> fm st1 = fm st"
  by (auto simp: run_chunk_def Let_def split: sum.splits if_splits prod.splits option.splits)


lemma run_chunks_fm: "run_chunks st big ts = (st', evs, res) \<Longrightarrow> fm st' = fm st"
proof (induction ts arbitrary: st st' evs res)
  case Nil
  then show ?case by simp
next
  case (Cons t ts)
  obtain st1 e1 r1 where c: "run_chunk st big t = (st1, e1, r1)"
    by (cases "run_chunk st big t")
  show ?case
  proof (cases r1)
    case None
    obtain st2 e2 r2 where cs: "run_chunks st1 big ts = (st2, e2, r2)"
      by (cases "run_chunks st1 big ts")
    with Cons.prems c None have "st' = st2" by simp
    with Cons.IH [OF cs] run_chunk_fm [OF c] show ?thesis by simp
  next
    case (Some e)
    with Cons.prems c have "st' = st1" by simp
    with run_chunk_fm [OF c] show ?thesis by simp
  qed
qed


lemma run_chunks_success:
  "run_chunks st big ts = (st', evs, None) \<Longrightarrow>
     zmin st' = zmin st + sum_list ts \<and>
     zmax st' = (if ts = [] then zmax st else Some (zmin st + sum_list ts)) \<and>
     tile_shape st' = tile_shape st \<and> ram st' = ram st \<and> dtype st' = dtype st \<and>
     window_writes evs =
       concat (map (\<lambda>b. [Set_zmax b, Set_zmin b]) (chunk_bounds (zmin st) ts)) \<and>
     length (appends evs) = length ts \<and>
     length (consumer_starts evs) = length ts"
proof (induction ts arbitrary: st st' evs)
  case Nil
  then show ?case by (simp add: window_writes_def appends_def consumer_starts_def)
next
  case (Cons t ts)
  obtain st1 e1 r1 where c: "run_chunk st big t = (st1, e1, r1)"
    by (cases "run_chunk st big t")
  obtain st2 e2 r2 where cs: "run_chunks st1 big ts = (st2, e2, r2)"
    by (cases "run_chunks st1 big ts")
  from Cons.prems c cs have r1: "r1 = None" and r2: "r2 = None"
    and st': "st' = st2" and evs: "evs = e1 @ e2"
    by (auto split: option.splits)
  from run_chunk_success [OF c [unfolded r1]] obtain shp shp' puts where
    e1: "e1 = [Set_zmax (zmin st + t), Zeros shp, Thread_start] @ puts @
              [Put_close, Thread_join, Imsave shp' (dtype st) big, Set_zmin (zmin st + t)]"
    and lp: "list_all is_put puts"
    and st1: "st1 = st\<lparr>zmax := Some (zmin st + t), zmin := zmin st + t\<rparr>"
    by blast
  have w1: "window_writes e1 = [Set_zmax (zmin st + t), Set_zmin (zmin st + t)]"
    unfolding e1 window_writes_append using window_writes_puts [OF lp]
    by (simp add: window_writes_def)
  have a1: "length (appends e1) = 1"
    unfolding e1 appends_append using appends_puts [OF lp] by (simp add: appends_def)
  have s1: "length (consumer_starts e1) = 1"
    unfolding e1 consumer_starts_append using consumer_starts_puts [OF lp]
    by (simp add: consumer_starts_def)
  note ih = Cons.IH [OF cs [unfolded r2]]
  show ?case
    using ih w1 a1 s1
    by (simp add: st' evs st1 window_writes_append appends_append consumer_starts_append
        add.assoc)
qed

lemma partial_thickness_sum:
  assumes "1 \<le> n" and "0 \<le> D"
  shows "sum_list (replicate (nat (D div n)) n @ (if D mod n \<noteq> 0 then [D mod n] else [])) = D"
proof -
  have "0 \<le> D div n" using assms by (simp add: pos_imp_zdiv_nonneg_iff)
  then have "int (nat (D div n)) * n + D mod n = D" by simp
  then show ?thesis by (simp add: sum_list_replicate)
qed

lemma partial_thickness_pos:
  assumes "1 \<le> n"
  shows "\<forall>t \<in> set (replicate (nat (D div n)) n @ (if D mod n \<noteq> 0 then [D mod n] else [])). 0 < t"
proof -
  have "0 \<le> D mod n" using assms by simp
  then have "D mod n \<noteq> 0 \<longrightarrow> 0 < D mod n" by linarith
  then show ?thesis using assms by auto
qed

lemma chunk_bounds_above: "\<forall>t \<in> set ts. 0 < t \<Longrightarrow> b \<in> set (chunk_bounds z ts) \<Longrightarrow> z < b"
proof (induction ts arbitrary: z)
  case Nil
  then show ?case by simp
next
  case (Cons t ts)
  then show ?case by fastforce
qed

lemma chunk_bounds_increasing:
  "\<forall>t \<in> set ts. 0 < t \<Longrightarrow> sorted_wrt (<) (z # chunk_bounds z ts)"
proof (induction ts arbitrary: z)
  case Nil
  then show ?case by simp
next
  case (Cons t ts)
  have "\<forall>b \<in> set (chunk_bounds z (t # ts)). z < b"
    using chunk_bounds_above [OF Cons.prems] by blast
  moreover have "sorted_wrt (<) ((z + t) # chunk_bounds (z + t) ts)"
    using Cons by simp
  ultimately show ?case by simp
qed

lemma output_shape_nonempty: "output_shape st = Inr shp \<Longrightarrow> shp \<noteq> []"
  by (auto simp: output_shape_def set_item_def Let_def split: if_splits sum.splits)

lemma run_unfold:
  assumes "output_shape (normalized st) = Inr (D # rest)"
    and "n_frames_in_ram (ram st) (xy_size (D # rest)) = Inr n"
    and "partial_thickness D n = Inr ts"
  shows "run st =
           (case run_chunks (normalized st)
                  (bigtiff_decision (total_byte_size (D # rest) (dtype st))) ts of
              (st', evs, res) \<Rightarrow> (st', Remove_output # evs, res))"
  using assms by (simp add: run_def Let_def normalized_def)

subsection \<open>What a chunk puts on the queue\<close>

lemma put_tiles_success:
  "put_tiles st rs = (evs, None) \<Longrightarrow>
     evs = map Put (concat (map (tile_placements st) rs)) \<and>
     (\<forall>r \<in> set rs. \<exists>ps. place_tile st r = Inr ps)"
proof (induction rs arbitrary: evs)
  case Nil
  then show ?case by simp
next
  case (Cons r rs)
  from Cons.prems obtain ps where ps: "place_tile st r = Inr ps"
    by (cases "place_tile st r") auto
  obtain evs' res where pt: "put_tiles st rs = (evs', res)"
    by (cases "put_tiles st rs")
  with Cons.prems ps have res: "res = None" and evs: "evs = map Put ps @ evs'"
    by auto
  from Cons.IH [OF pt [unfolded res]] ps evs show ?case
    by (simp add: tile_placements_def)
qed

lemma filter_is_put_puts: "list_all is_put evs \<Longrightarrow> filter is_put evs = evs"
  by (induction evs) auto

lemma tile_placements_cong:
  assumes "zmin st = zmin st2" and "zmax st = zmax st2" and "fm st = fm st2"
    and "read_slice st = read_slice st2"
  shows "tile_placements st r = tile_placements st2 r"
  unfolding tile_placements_def place_tile_def assms ..

lemma run_chunk_queue:
  assumes "run_chunk st big t = (st1, tr, None)"
  shows "filter is_put tr =
           map Put (concat (map (tile_placements (st\<lparr>zmax := Some (zmin st + t)\<rparr>))
                              (data_frame (fm st)))) \<and>
         (\<forall>r \<in> set (data_frame (fm st)).
            \<exists>ps. place_tile (st\<lparr>zmax := Some (zmin st + t)\<rparr>) r = Inr ps)"
proof -
  let ?st = "st\<lparr>zmax := Some (zmin st + t)\<rparr>"
  obtain shp where shp: "output_shape ?st = Inr shp" "\<not> list_ex (\<lambda>d. d < 0) shp"
    using assms by (auto simp: run_chunk_def Let_def split: sum.splits if_splits)
  obtain puts where puts: "put_tiles ?st (data_frame (fm st)) = (puts, None)"
    using assms shp
    by (cases "put_tiles ?st (data_frame (fm st))")
       (auto simp: run_chunk_def Let_def split: option.splits)
  obtain shp' where "(if is_multichannel st then moveaxis_shape shp else Inr shp) = Inr shp'"
    using assms shp puts by (auto simp: run_chunk_def Let_def split: sum.splits if_splits)
  then have tr: "tr = [Set_zmax (zmin st + t), Zeros shp, Thread_start] @ puts @
      [Put_close, Thread_join, Imsave shp' (dtype st) big, Set_zmin (zmin st + t)]"
    using assms shp puts by (auto simp: run_chunk_def Let_def)
  have lp: "list_all is_put puts" using puts by (rule put_tiles_puts')
  have "filter is_put tr = puts"
    unfolding tr using filter_is_put_puts [OF lp] by (simp add: is_put_def)
  with put_tiles_success [OF puts] show ?thesis by simp
qed

lemma run_chunks_queue:
  "run_chunks st big ts = (st', tr, None) \<Longrightarrow>
   filter is_put tr =
     concat (map (\<lambda>(a, b). map Put (concat (map (tile_placements (at_window st a b))
                                                (data_frame (fm st)))))
               (chunk_windows (zmin st) ts))"
proof (induction ts arbitrary: st st' tr)
  case Nil
  then show ?case by simp
next
  case (Cons t ts)
  obtain st1 e1 r1 where c: "run_chunk st big t = (st1, e1, r1)"
    by (cases "run_chunk st big t")
  obtain st2 e2 r2 where cs: "run_chunks st1 big ts = (st2, e2, r2)"
    by (cases "run_chunks st1 big ts")
  from Cons.prems c cs have r1: "r1 = None" and r2: "r2 = None" and tr: "tr = e1 @ e2"
    by (auto split: option.splits)
  from run_chunk_success [OF c [unfolded r1]]
  have st1: "st1 = st\<lparr>zmax := Some (zmin st + t), zmin := zmin st + t\<rparr>" by blast
  have w: "tile_placements (st\<lparr>zmax := Some (zmin st + t)\<rparr>) =
           tile_placements (at_window st (zmin st) (zmin st + t))"
    by (rule ext, rule tile_placements_cong) (simp_all add: at_window_def)
  have q1: "filter is_put e1 =
      map Put (concat (map (tile_placements (at_window st (zmin st) (zmin st + t)))
                         (data_frame (fm st))))"
    using run_chunk_queue [OF c [unfolded r1]] by (simp only: w)
  have e: "at_window st1 a b = at_window st a b" for a b
    by (simp add: st1 at_window_def)
  have f: "fm st1 = fm st" "zmin st1 = zmin st + t"
    by (simp_all add: st1)
  have q2: "filter is_put e2 =
     concat (map (\<lambda>(a, b). map Put (concat (map (tile_placements (at_window st a b))
                                                (data_frame (fm st)))))
               (chunk_windows (zmin st + t) ts))"
    using Cons.IH [OF cs [unfolded r2]] by (simp only: e f)
  have "filter is_put tr = filter is_put e1 @ filter is_put e2"
    by (simp add: tr)
  then show ?case
    by (simp only: q1 q2 chunk_windows.simps list.map concat.simps prod.case)
qed

lemma place_tile_cong:
  assumes "zmin st = zmin st2" and "zmax st = zmax st2" and "fm st = fm st2"
    and "read_slice st = read_slice st2"
  shows "place_tile st r = place_tile st2 r"
  unfolding place_tile_def assms ..

lemma place_tile_returns:
  assumes "place_tile st r = Inr ps" and "zmax st = Some zm"
  shows "(ps = []) =
           (min (zm - Zs r) (nfrms r) \<le> 0 \<or>
            max (zmin st - Zs r) 0 \<ge> min (zm - Zs r) (nfrms r)) \<and>
         (\<not> (min (zm - Zs r) (nfrms r) \<le> 0 \<or>
             max (zmin st - Zs r) 0 \<ge> min (zm - Zs r) (nfrms r)) \<longrightarrow>
            (\<exists>s. read_slice st (name r) (max (zmin st - Zs r) 0) (min (zm - Zs r) (nfrms r)) = Inr s \<and>
                 ps = [\<lparr>tile_slice = s,
                        top_left = [Zs r + max (zmin st - Zs r) 0 - zmin st, Ys r, Xs r],
                        clipped = clip_overlaps (max (zmin st - Zs r) 0)
                                    (min (zm - Zs r) (nfrms r)) (overlaps (fm st) (name r))\<rparr>]))"
  using assms
  by (auto simp: place_tile_def z_range_def Let_def min_def max_def split: sum.splits if_splits)

lemma run_chunk_rows:
  assumes "run_chunk c big t = (c', tr, None)" and "r \<in> set (data_frame (fm c))"
  shows "(tile_placements (at_window c (zmin c) (zmin c + t)) r = []) =
           (min (zmin c + t - Zs r) (nfrms r) \<le> 0 \<or>
            max (zmin c - Zs r) 0 \<ge> min (zmin c + t - Zs r) (nfrms r)) \<and>
         (\<not> (min (zmin c + t - Zs r) (nfrms r) \<le> 0 \<or>
             max (zmin c - Zs r) 0 \<ge> min (zmin c + t - Zs r) (nfrms r)) \<longrightarrow>
            (\<exists>s. read_slice c (name r) (max (zmin c - Zs r) 0)
                     (min (zmin c + t - Zs r) (nfrms r)) = Inr s \<and>
                 tile_placements (at_window c (zmin c) (zmin c + t)) r =
                   [\<lparr>tile_slice = s,
                     top_left = [Zs r + max (zmin c - Zs r) 0 - zmin c, Ys r, Xs r],
                     clipped = clip_overlaps (max (zmin c - Zs r) 0)
                                 (min (zmin c + t - Zs r) (nfrms r))
                                 (overlaps (fm c) (name r))\<rparr>]))"
proof -
  let ?w = "at_window c (zmin c) (zmin c + t)"
  have w: "tile_placements (c\<lparr>zmax := Some (zmin c + t)\<rparr>) r = tile_placements ?w r"
    by (rule tile_placements_cong) (simp_all add: at_window_def)
  have p: "place_tile (c\<lparr>zmax := Some (zmin c + t)\<rparr>) r = place_tile ?w r"
    by (rule place_tile_cong) (simp_all add: at_window_def)
  from run_chunk_queue [OF assms(1)] assms(2) obtain ps where
    "place_tile (c\<lparr>zmax := Some (zmin c + t)\<rparr>) r = Inr ps" by blast
  with p have ps: "place_tile ?w r = Inr ps" by simp
  then have tp: "tile_placements ?w r = ps" by (simp add: tile_placements_def)
  have z: "zmax ?w = Some (zmin c + t)" "zmin ?w = zmin c" "fm ?w = fm c"
    "read_slice ?w = read_slice c"
    by (simp_all add: at_window_def)
  from place_tile_returns [OF ps z(1)] show ?thesis
    unfolding tp z .
qed

lemma run_queue:
  assumes "run st = (st', tr, None)"
    and "output_shape (normalized st) = Inr (D # rest)"
    and "n_frames_in_ram (ram st) (xy_size (D # rest)) = Inr n"
    and "partial_thickness D n = Inr ts"
  shows "filter is_put tr =
           concat (map (\<lambda>(a, b). map Put (concat (map (tile_placements (at_window (normalized st) a b))
                                                      (data_frame (fm (normalized st))))))
                     (chunk_windows (zmin st) ts))"
proof -
  let ?big = "bigtiff_decision (total_byte_size (D # rest) (dtype st))"
  obtain st2 evs res where rc: "run_chunks (normalized st) ?big ts = (st2, evs, res)"
    by (cases "run_chunks (normalized st) ?big ts")
  from run_unfold [OF assms(2,3,4)] rc assms(1)
  have eq: "tr = Remove_output # evs" "res = None" by simp_all
  have z: "zmin (normalized st) = zmin st" by (simp add: normalized_def)
  from run_chunks_queue [OF rc [unfolded eq(2)]] show ?thesis
    unfolding z by (simp add: eq(1) is_put_def)
qed

section \<open>The claims\<close>

text \<open>
  C1 (as amended). For every output depth \<open>D \<ge> 0\<close> and every computed chunk size
  \<open>n \<ge> 1\<close>, a run that returns partitions \<open>D\<close> into \<open>D div n\<close> chunks of thickness
  \<open>n\<close> followed by one chunk of thickness \<open>D mod n\<close> when that is not zero. The
  thicknesses are positive and sum to \<open>D\<close>; the window writes of the run are, chunk by
  chunk, \<open>zmax := b\<close> then \<open>zmin := b\<close> for the successive chunk ends \<open>b\<close>, which
  increase strictly from the initial \<open>zmin\<close>; \<open>zmin\<close> ends at its initial value plus
  \<open>D\<close>; there is one consumer start and one append per chunk.
\<close>

theorem run_partitions_depth:
  assumes "output_shape (normalized st) = Inr (D # rest)"
    and "n_frames_in_ram (ram st) (xy_size (D # rest)) = Inr n"
    and "1 \<le> n" and "0 \<le> D"
    and "run st = (st', tr, None)"
    and "ts = replicate (nat (D div n)) n @ (if D mod n \<noteq> 0 then [D mod n] else [])"
  shows "partial_thickness D n = Inr ts \<and>
         sum_list ts = D \<and>
         (\<forall>t \<in> set ts. 0 < t) \<and>
         window_writes tr =
           concat (map (\<lambda>b. [Set_zmax b, Set_zmin b]) (chunk_bounds (zmin st) ts)) \<and>
         sorted_wrt (<) (zmin st # chunk_bounds (zmin st) ts) \<and>
         zmin st' = zmin st + D \<and>
         length (appends tr) = length ts \<and>
         length (consumer_starts tr) = length ts"
proof -
  have pt: "partial_thickness D n = Inr ts"
    using assms(3,6) by (simp add: partial_thickness_def Let_def)
  have sum: "sum_list ts = D"
    unfolding assms(6) using assms(3,4) by (rule partial_thickness_sum)
  have pos: "\<forall>t \<in> set ts. 0 < t"
    unfolding assms(6) using assms(3) by (rule partial_thickness_pos)
  let ?big = "bigtiff_decision (total_byte_size (D # rest) (dtype st))"
  obtain st2 evs res where rc: "run_chunks (normalized st) ?big ts = (st2, evs, res)"
    by (cases "run_chunks (normalized st) ?big ts")
  from run_unfold [OF assms(1,2) pt] rc assms(5)
  have eq: "st' = st2" "tr = Remove_output # evs" "res = None" by simp_all
  note s = run_chunks_success [OF rc [unfolded eq(3)]]
  have z: "zmin (normalized st) = zmin st" by (simp add: normalized_def)
  have w: "window_writes tr = window_writes evs"
    by (simp add: eq(2) window_writes_def)
  have a: "appends tr = appends evs" by (simp add: eq(2) appends_def)
  have c: "consumer_starts tr = consumer_starts evs" by (simp add: eq(2) consumer_starts_def)
  show ?thesis
    using pt sum pos s chunk_bounds_increasing [OF pos, of "zmin st"]
    by (simp add: w a c z eq(1))
qed

theorem run_partitions_depth_witness:
  "partial_thickness 10 4 = Inr [4, 4, 2] \<and>
   sum_list [4, 4, 2] = (10::int) \<and>
   window_writes (fst (snd (run example_runner))) =
     [Set_zmax 4, Set_zmin 4, Set_zmax 8, Set_zmin 8, Set_zmax 10, Set_zmin 10] \<and>
   zmin (fst (run example_runner)) = 10 \<and>
   length (appends (fst (snd (run example_runner)))) = 3 \<and>
   length (consumer_starts (fst (snd (run example_runner)))) = 3"
proof -
  have "snd (snd (run example_runner)) = None" by code_simp
  then have r: "run example_runner =
      (fst (run example_runner), fst (snd (run example_runner)), None)"
    by (cases "run example_runner") simp
  have o: "output_shape (normalized example_runner) = Inr (10 # [4, 6])" by code_simp
  have n: "n_frames_in_ram (ram example_runner) (xy_size [10, 4, 6]) = Inr 4" by code_simp
  have ts: "[4, 4, 2] =
      replicate (nat (10 div 4)) (4::int) @ (if (10::int) mod 4 \<noteq> 0 then [10 mod 4] else [])"
    by (simp add: numeral_eq_Suc)
  have z: "zmin example_runner = 0" by code_simp
  from run_partitions_depth [OF o n _ _ r ts] z show ?thesis
    by simp
qed

text \<open>
  Without the bound on \<open>D\<close> the claim fails: for the window \<open>[10, 7)\<close> the depth is
  \<open>-3\<close>, the chunk size is 4, and the run processes one chunk of thickness 1.
\<close>

theorem run_partitions_depth_counterexample:
  "output_shape (normalized reversed_runner) = Inr [- 3, 4, 6] \<and>
   n_frames_in_ram (ram reversed_runner) (xy_size [- 3, 4, 6]) = Inr 4 \<and>
   partial_thickness (- 3) 4 = Inr [1] \<and>
   sum_list [1] \<noteq> (- 3 :: int) \<and>
   snd (snd (run reversed_runner)) = None \<and>
   window_writes (fst (snd (run reversed_runner))) = [Set_zmax 11, Set_zmin 11]"
  by code_simp

text \<open>
  C2. For a tile with origin \<open>Zs\<close> and \<open>nfrms\<close> frames and a chunk window
  \<open>[zmin, zmax)\<close>, let \<open>z_to = min (zmax - Zs) nfrms\<close> and
  \<open>z_from = max (zmin - Zs) 0\<close>. The tile puts nothing on the queue if and only if
  \<open>z_to \<le> 0\<close> or \<open>z_from \<ge> z_to\<close>; otherwise, its slice being read over
  \<open>[z_from, z_to)\<close>, it puts exactly one placement, with that slice and with
  \<open>top_left = (Zs + z_from - zmin, Ys, Xs)\<close>. This is stated of the loop body
  (\<open>place_tile\<close>); of a chunk that completes, whose queue puts are, in table order, the
  placements of the rows for the window \<open>[zmin, zmin + thickness)\<close>, each row
  contributing none or one as above; and of a run that returns, whose queue puts are
  those of its successive chunk windows.
\<close>

theorem place_tile_window:
  "(zmax st = Some zm \<longrightarrow>
      z_range (zmin st) (zmax st) r =
        (if min (zm - Zs r) (nfrms r) \<le> 0 \<or> max (zmin st - Zs r) 0 \<ge> min (zm - Zs r) (nfrms r)
         then None else Some (max (zmin st - Zs r) 0, min (zm - Zs r) (nfrms r))) \<and>
      ((place_tile st r = Inr []) =
         (min (zm - Zs r) (nfrms r) \<le> 0 \<or> max (zmin st - Zs r) 0 \<ge> min (zm - Zs r) (nfrms r))) \<and>
      (\<not> (min (zm - Zs r) (nfrms r) \<le> 0 \<or> max (zmin st - Zs r) 0 \<ge> min (zm - Zs r) (nfrms r)) \<and>
       read_slice st (name r) (max (zmin st - Zs r) 0) (min (zm - Zs r) (nfrms r)) = Inr s \<longrightarrow>
         place_tile st r =
           Inr [\<lparr>tile_slice = s,
                 top_left = [Zs r + max (zmin st - Zs r) 0 - zmin st, Ys r, Xs r],
                 clipped = clip_overlaps (max (zmin st - Zs r) 0) (min (zm - Zs r) (nfrms r))
                             (overlaps (fm st) (name r))\<rparr>])) \<and>
   (run_chunk c big t = (c', ctr, None) \<longrightarrow>
      filter is_put ctr =
        map Put (concat (map (tile_placements (at_window c (zmin c) (zmin c + t)))
                           (data_frame (fm c)))) \<and>
      (\<forall>q \<in> set (data_frame (fm c)).
         ((tile_placements (at_window c (zmin c) (zmin c + t)) q = []) =
            (min (zmin c + t - Zs q) (nfrms q) \<le> 0 \<or>
             max (zmin c - Zs q) 0 \<ge> min (zmin c + t - Zs q) (nfrms q))) \<and>
         (\<not> (min (zmin c + t - Zs q) (nfrms q) \<le> 0 \<or>
              max (zmin c - Zs q) 0 \<ge> min (zmin c + t - Zs q) (nfrms q)) \<longrightarrow>
            (\<exists>s. read_slice c (name q) (max (zmin c - Zs q) 0)
                      (min (zmin c + t - Zs q) (nfrms q)) = Inr s \<and>
                  tile_placements (at_window c (zmin c) (zmin c + t)) q =
                    [\<lparr>tile_slice = s,
                      top_left = [Zs q + max (zmin c - Zs q) 0 - zmin c, Ys q, Xs q],
                      clipped = clip_overlaps (max (zmin c - Zs q) 0)
                                  (min (zmin c + t - Zs q) (nfrms q))
                                  (overlaps (fm c) (name q))\<rparr>])))) \<and>
   (run g = (g', gtr, None) \<and> output_shape (normalized g) = Inr (D # rest) \<and>
    n_frames_in_ram (ram g) (xy_size (D # rest)) = Inr n \<and> partial_thickness D n = Inr ts \<longrightarrow>
      filter is_put gtr =
        concat (map (\<lambda>(a, b). map Put (concat (map (tile_placements (at_window (normalized g) a b))
                                                   (data_frame (fm (normalized g))))))
                  (chunk_windows (zmin g) ts)))"
proof -
  have A:
    "(zmax st = Some zm \<longrightarrow>
      z_range (zmin st) (zmax st) r =
        (if min (zm - Zs r) (nfrms r) \<le> 0 \<or> max (zmin st - Zs r) 0 \<ge> min (zm - Zs r) (nfrms r)
         then None else Some (max (zmin st - Zs r) 0, min (zm - Zs r) (nfrms r))) \<and>
      ((place_tile st r = Inr []) =
         (min (zm - Zs r) (nfrms r) \<le> 0 \<or> max (zmin st - Zs r) 0 \<ge> min (zm - Zs r) (nfrms r))) \<and>
      (\<not> (min (zm - Zs r) (nfrms r) \<le> 0 \<or> max (zmin st - Zs r) 0 \<ge> min (zm - Zs r) (nfrms r)) \<and>
       read_slice st (name r) (max (zmin st - Zs r) 0) (min (zm - Zs r) (nfrms r)) = Inr s \<longrightarrow>
         place_tile st r =
           Inr [\<lparr>tile_slice = s,
                 top_left = [Zs r + max (zmin st - Zs r) 0 - zmin st, Ys r, Xs r],
                 clipped = clip_overlaps (max (zmin st - Zs r) 0) (min (zm - Zs r) (nfrms r))
                             (overlaps (fm st) (name r))\<rparr>]))"
    by (auto simp: place_tile_def z_range_def Let_def min_def max_def split: sum.splits)
  have B:
    "(run_chunk c big t = (c', ctr, None) \<longrightarrow>
      filter is_put ctr =
        map Put (concat (map (tile_placements (at_window c (zmin c) (zmin c + t)))
                           (data_frame (fm c)))) \<and>
      (\<forall>q \<in> set (data_frame (fm c)).
         ((tile_placements (at_window c (zmin c) (zmin c + t)) q = []) =
            (min (zmin c + t - Zs q) (nfrms q) \<le> 0 \<or>
             max (zmin c - Zs q) 0 \<ge> min (zmin c + t - Zs q) (nfrms q))) \<and>
         (\<not> (min (zmin c + t - Zs q) (nfrms q) \<le> 0 \<or>
              max (zmin c - Zs q) 0 \<ge> min (zmin c + t - Zs q) (nfrms q)) \<longrightarrow>
            (\<exists>s. read_slice c (name q) (max (zmin c - Zs q) 0)
                      (min (zmin c + t - Zs q) (nfrms q)) = Inr s \<and>
                  tile_placements (at_window c (zmin c) (zmin c + t)) q =
                    [\<lparr>tile_slice = s,
                      top_left = [Zs q + max (zmin c - Zs q) 0 - zmin c, Ys q, Xs q],
                      clipped = clip_overlaps (max (zmin c - Zs q) 0)
                                  (min (zmin c + t - Zs q) (nfrms q))
                                  (overlaps (fm c) (name q))\<rparr>]))))"
  proof (intro impI conjI ballI)
    assume h: "run_chunk c big t = (c', ctr, None)"
    have "tile_placements (c\<lparr>zmax := Some (zmin c + t)\<rparr>) =
          tile_placements (at_window c (zmin c) (zmin c + t))"
      by (rule ext, rule tile_placements_cong) (simp_all add: at_window_def)
    with run_chunk_queue [OF h]
    show "filter is_put ctr =
        map Put (concat (map (tile_placements (at_window c (zmin c) (zmin c + t)))
                           (data_frame (fm c))))"
      by (simp only:)
  next
    fix q
    assume h: "run_chunk c big t = (c', ctr, None)" and q: "q \<in> set (data_frame (fm c))"
    from run_chunk_rows [OF h q]
    show "(tile_placements (at_window c (zmin c) (zmin c + t)) q = []) =
            (min (zmin c + t - Zs q) (nfrms q) \<le> 0 \<or>
             max (zmin c - Zs q) 0 \<ge> min (zmin c + t - Zs q) (nfrms q))"
      by (rule conjunct1)
  next
    fix q
    assume h: "run_chunk c big t = (c', ctr, None)" and q: "q \<in> set (data_frame (fm c))"
      and n: "\<not> (min (zmin c + t - Zs q) (nfrms q) \<le> 0 \<or>
              max (zmin c - Zs q) 0 \<ge> min (zmin c + t - Zs q) (nfrms q))"
    from run_chunk_rows [OF h q, THEN conjunct2, rule_format, OF n]
    show "\<exists>s. read_slice c (name q) (max (zmin c - Zs q) 0)
                      (min (zmin c + t - Zs q) (nfrms q)) = Inr s \<and>
                  tile_placements (at_window c (zmin c) (zmin c + t)) q =
                    [\<lparr>tile_slice = s,
                      top_left = [Zs q + max (zmin c - Zs q) 0 - zmin c, Ys q, Xs q],
                      clipped = clip_overlaps (max (zmin c - Zs q) 0)
                                  (min (zmin c + t - Zs q) (nfrms q))
                                  (overlaps (fm c) (name q))\<rparr>]" .
  qed
  have C:
    "(run g = (g', gtr, None) \<and> output_shape (normalized g) = Inr (D # rest) \<and>
    n_frames_in_ram (ram g) (xy_size (D # rest)) = Inr n \<and> partial_thickness D n = Inr ts \<longrightarrow>
      filter is_put gtr =
        concat (map (\<lambda>(a, b). map Put (concat (map (tile_placements (at_window (normalized g) a b))
                                                   (data_frame (fm (normalized g))))))
                  (chunk_windows (zmin g) ts)))"
    using run_queue [of g g' gtr D rest n ts] by blast
  show ?thesis
    by (rule conjI [OF A conjI [OF B C]])
qed

theorem place_tile_window_witness:
  "zmax (example_runner\<lparr>zmin := 4, zmax := Some 8\<rparr>) = Some 8 \<and>
   z_range 4 (Some 8) tile_B = Some (0, 3) \<and>
   place_tile (example_runner\<lparr>zmin := 4, zmax := Some 8\<rparr>) tile_B =
     Inr [\<lparr>tile_slice = (''B'', 0, 3), top_left = [1, 0, 0],
           clipped = [\<lparr>Z_from = 0, Z_to = 5\<rparr>]\<rparr>] \<and>
   snd (snd (run_chunk (example_runner\<lparr>zmin := 4\<rparr>) False 4)) = None \<and>
   filter is_put (fst (snd (run_chunk (example_runner\<lparr>zmin := 4\<rparr>) False 4))) =
     [Put \<lparr>tile_slice = (''A'', 4, 8), top_left = [0, 0, 0],
            clipped = [\<lparr>Z_from = 1, Z_to = 6\<rparr>]\<rparr>,
      Put \<lparr>tile_slice = (''B'', 0, 3), top_left = [1, 0, 0],
            clipped = [\<lparr>Z_from = 0, Z_to = 5\<rparr>]\<rparr>] \<and>
   snd (snd (run example_runner)) = None \<and>
   output_shape (normalized example_runner) = Inr [10, 4, 6] \<and>
   n_frames_in_ram (ram example_runner) (xy_size [10, 4, 6]) = Inr 4 \<and>
   partial_thickness 10 4 = Inr [4, 4, 2] \<and>
   filter is_put (fst (snd (run example_runner))) =
     [Put \<lparr>tile_slice = (''A'', 0, 4), top_left = [0, 0, 0], clipped = []\<rparr>,
      Put \<lparr>tile_slice = (''A'', 4, 8), top_left = [0, 0, 0],
            clipped = [\<lparr>Z_from = 1, Z_to = 6\<rparr>]\<rparr>,
      Put \<lparr>tile_slice = (''B'', 0, 3), top_left = [1, 0, 0],
            clipped = [\<lparr>Z_from = 0, Z_to = 5\<rparr>]\<rparr>,
      Put \<lparr>tile_slice = (''A'', 8, 10), top_left = [0, 0, 0],
            clipped = [\<lparr>Z_from = 0, Z_to = 2\<rparr>]\<rparr>,
      Put \<lparr>tile_slice = (''B'', 3, 5), top_left = [0, 0, 0],
            clipped = [\<lparr>Z_from = 0, Z_to = 2\<rparr>]\<rparr>]"
proof -
  let ?c = "example_runner\<lparr>zmin := 4\<rparr>"
  have sc: "snd (snd (run_chunk ?c False 4)) = None" by code_simp
  then have hc: "run_chunk ?c False 4 =
      (fst (run_chunk ?c False 4), fst (snd (run_chunk ?c False 4)), None)"
    by (cases "run_chunk ?c False 4") simp
  have sg: "snd (snd (run example_runner)) = None" by code_simp
  then have hg: "run example_runner =
      (fst (run example_runner), fst (snd (run example_runner)), None)"
    by (cases "run example_runner") simp
  have o: "output_shape (normalized example_runner) = Inr (10 # [4, 6])" by code_simp
  have n: "n_frames_in_ram (ram example_runner) (xy_size (10 # [4, 6])) = Inr 4" by code_simp
  have pt: "partial_thickness 10 4 = Inr [4, 4, 2]" by code_simp
  have zc: "zmin ?c = 4" by simp
  have e1: "map Put (concat (map (tile_placements (at_window ?c 4 (4 + 4)))
                               (data_frame (fm ?c)))) =
     [Put \<lparr>tile_slice = (''A'', 4, 8), top_left = [0, 0, 0],
            clipped = [\<lparr>Z_from = 1, Z_to = 6\<rparr>]\<rparr>,
      Put \<lparr>tile_slice = (''B'', 0, 3), top_left = [1, 0, 0],
            clipped = [\<lparr>Z_from = 0, Z_to = 5\<rparr>]\<rparr>]"
    by code_simp
  have e2: "concat (map (\<lambda>(a, b). map Put (concat (map (tile_placements
                 (at_window (normalized example_runner) a b))
                 (data_frame (fm (normalized example_runner))))))
               (chunk_windows (zmin example_runner) [4, 4, 2])) =
     [Put \<lparr>tile_slice = (''A'', 0, 4), top_left = [0, 0, 0], clipped = []\<rparr>,
      Put \<lparr>tile_slice = (''A'', 4, 8), top_left = [0, 0, 0],
            clipped = [\<lparr>Z_from = 1, Z_to = 6\<rparr>]\<rparr>,
      Put \<lparr>tile_slice = (''B'', 0, 3), top_left = [1, 0, 0],
            clipped = [\<lparr>Z_from = 0, Z_to = 5\<rparr>]\<rparr>,
      Put \<lparr>tile_slice = (''A'', 8, 10), top_left = [0, 0, 0],
            clipped = [\<lparr>Z_from = 0, Z_to = 2\<rparr>]\<rparr>,
      Put \<lparr>tile_slice = (''B'', 3, 5), top_left = [0, 0, 0],
            clipped = [\<lparr>Z_from = 0, Z_to = 2\<rparr>]\<rparr>]"
    by code_simp
  note T = place_tile_window
    [where st = "example_runner\<lparr>zmin := 4, zmax := Some 8\<rparr>" and zm = 8 and r = tile_B
       and s = "(''B'', 0, 3)" and c = ?c and big = False and t = 4
       and c' = "fst (run_chunk ?c False 4)" and ctr = "fst (snd (run_chunk ?c False 4))"
       and g = example_runner and g' = "fst (run example_runner)"
       and gtr = "fst (snd (run example_runner))" and D = 10 and rest = "[4, 6]" and n = 4
       and ts = "[4, 4, 2]"]
  have a: "zmax (example_runner\<lparr>zmin := 4, zmax := Some 8\<rparr>) = Some 8" by simp
  from T [THEN conjunct1, rule_format, OF a]
  have A: "z_range 4 (Some 8) tile_B = Some (0, 3) \<and>
     place_tile (example_runner\<lparr>zmin := 4, zmax := Some 8\<rparr>) tile_B =
       Inr [\<lparr>tile_slice = (''B'', 0, 3), top_left = [1, 0, 0],
             clipped = [\<lparr>Z_from = 0, Z_to = 5\<rparr>]\<rparr>]"
    by (simp add: example_runner_def tile_B_def example_overlaps_def clip_overlaps_def)
  from T [THEN conjunct2, THEN conjunct1, rule_format, OF hc, THEN conjunct1]
  have B: "filter is_put (fst (snd (run_chunk ?c False 4))) =
     map Put (concat (map (tile_placements (at_window ?c 4 (4 + 4))) (data_frame (fm ?c))))"
    by (simp only: zc)
  from T [THEN conjunct2, THEN conjunct2, rule_format, OF conjI [OF hg conjI [OF o conjI [OF n pt]]]]
  have C: "filter is_put (fst (snd (run example_runner))) =
     concat (map (\<lambda>(a, b). map Put (concat (map (tile_placements
                 (at_window (normalized example_runner) a b))
                 (data_frame (fm (normalized example_runner))))))
               (chunk_windows (zmin example_runner) [4, 4, 2]))" .
  show ?thesis
    using A sc sg o n pt B [unfolded e1] C [unfolded e2] a by simp
qed

text \<open>
  C3 (as amended). The overlaps forwarded with a slice read over \<open>[z_from, z_to)\<close> are
  exactly the tile's overlaps with \<open>Z_from \<le> z_to\<close> and \<open>Z_to \<ge> z_from\<close> (those that
  meet or touch the closed interval), in their order, each with \<open>Z_from\<close> and \<open>Z_to\<close>
  shifted by \<open>- z_from\<close> and a negative \<open>Z_from\<close> set to 0; an overlap that lies inside
  \<open>[z_from, z_to)\<close> keeps its bounds but for the shift.
\<close>

theorem clip_overlaps_touching:
  "clip_overlaps z_from z_to ovs =
     map (\<lambda>ov. ov\<lparr>Z_from := max 0 (Z_from ov - z_from), Z_to := Z_to ov - z_from\<rparr>)
       (filter (\<lambda>ov. Z_from ov \<le> z_to \<and> z_from \<le> Z_to ov) ovs) \<and>
   (z_from \<le> Z_from ov \<and> Z_from ov \<le> Z_to ov \<and> Z_to ov \<le> z_to \<longrightarrow>
      clip_overlaps z_from z_to [ov] =
        [ov\<lparr>Z_from := Z_from ov - z_from, Z_to := Z_to ov - z_from\<rparr>])"
  by (auto simp: clip_overlaps_def Let_def max_def comp_def)

theorem clip_overlaps_touching_witness:
  "clip_overlaps 4 8 [\<lparr>Z_from = 5, Z_to = 7\<rparr>, \<lparr>Z_from = 0, Z_to = 3\<rparr>, \<lparr>Z_from = 2, Z_to = 6\<rparr>] =
     [\<lparr>Z_from = 1, Z_to = 3\<rparr>, \<lparr>Z_from = 0, Z_to = 2\<rparr>] \<and>
   clip_overlaps 4 8 [\<lparr>Z_from = 5, Z_to = 7\<rparr>] = [\<lparr>Z_from = 1, Z_to = 3\<rparr>]"
  using clip_overlaps_touching
    [of 4 8 "[\<lparr>Z_from = 5, Z_to = 7\<rparr>, \<lparr>Z_from = 0, Z_to = 3\<rparr>, \<lparr>Z_from = 2, Z_to = 6\<rparr>]"
        "\<lparr>Z_from = 5, Z_to = 7\<rparr>"]
  by simp

text \<open>
  An overlap that starts where the slice ends does not meet \<open>[z_from, z_to)\<close>, and is
  forwarded all the same.
\<close>

theorem clip_overlaps_half_open_counterexample:
  "\<not> intersects_half_open 0 10 \<lparr>Z_from = 10, Z_to = 15\<rparr> \<and>
   clip_overlaps 0 10 [\<lparr>Z_from = 10, Z_to = 15\<rparr>] = [\<lparr>Z_from = 10, Z_to = 15\<rparr>]"
  by (simp add: intersects_half_open_def clip_overlaps_def)

text \<open>
  C4 (as amended). With \<open>zmax\<close> set, a non-empty table and a first tile of at least
  three axes, \<open>output_shape\<close> is the first tile's shape with its first element replaced
  by \<open>zmax - zmin\<close> (whatever the full thickness is) and its last two by the full height
  and the full width; the axes in between are the first tile's.
\<close>

theorem output_shape_window:
  "zmax st = Some zm \<Longrightarrow> data_frame (fm st) \<noteq> [] \<Longrightarrow> 3 \<le> length (tile_shape st) \<Longrightarrow>
   output_shape st =
     Inr ((tile_shape st)[0 := zm - zmin st,
                          length (tile_shape st) - 2 := full_height (fm st),
                          length (tile_shape st) - 1 := full_width (fm st)]) \<and>
   (\<exists>shp. output_shape st = Inr shp \<and> length shp = length (tile_shape st) \<and>
      shp ! 0 = zm - zmin st \<and>
      shp ! (length shp - 2) = full_height (fm st) \<and>
      shp ! (length shp - 1) = full_width (fm st) \<and>
      (\<forall>i. 0 < i \<and> i < length shp - 2 \<longrightarrow> shp ! i = tile_shape st ! i))"
  by (auto simp: output_shape_def set_item_def Let_def nat_diff_distrib nat_add_distrib
      algebra_simps)

theorem output_shape_window_witness:
  "zmax (example_runner\<lparr>zmin := 4, zmax := Some 8\<rparr>) = Some 8 \<and>
   data_frame (fm (example_runner\<lparr>zmin := 4, zmax := Some 8\<rparr>)) \<noteq> [] \<and>
   3 \<le> length (tile_shape (example_runner\<lparr>zmin := 4, zmax := Some 8\<rparr>)) \<and>
   output_shape (example_runner\<lparr>zmin := 4, zmax := Some 8\<rparr>) = Inr [4, 4, 6]"
  using output_shape_window [of "example_runner\<lparr>zmin := 4, zmax := Some 8\<rparr>" 8]
  by (simp add: example_runner_def tile_A_def)

text \<open>
  With \<open>zmax = 20\<close> above the full thickness 15, the depth is 20 and not
  \<open>min 15 20 - 0 = 15\<close>.
\<close>

theorem output_shape_min_counterexample:
  "output_shape (example_runner\<lparr>zmax := Some 20\<rparr>) = Inr [20, 4, 6] \<and>
   min (full_thickness (fm (example_runner\<lparr>zmax := Some 20\<rparr>))) 20
     - zmin (example_runner\<lparr>zmax := Some 20\<rparr>) = 15"
  by (simp add: example_runner_def output_shape_def set_item_def)

subsection \<open>Lemmas on \<open>run\<close>\<close>

lemma run_cases:
  assumes "run st = (st', tr, res)"
  shows "(tr = [] \<and> st' = normalized st \<and> res \<noteq> None) \<or>
         (\<exists>D rest n ts evs.
            output_shape (normalized st) = Inr (D # rest) \<and>
            n_frames_in_ram (ram st) (xy_size (D # rest)) = Inr n \<and>
            partial_thickness D n = Inr ts \<and>
            run_chunks (normalized st)
              (bigtiff_decision (total_byte_size (D # rest) (dtype st))) ts = (st', evs, res) \<and>
            tr = Remove_output # evs)"
proof (cases "output_shape (normalized st)")
  case (Inl e)
  with assms show ?thesis by (auto simp: run_def Let_def)
next
  case (Inr shp)
  then obtain D rest where shp: "shp = D # rest"
    using output_shape_nonempty by (cases shp) auto
  have r: "ram (normalized st) = ram st" "dtype (normalized st) = dtype st"
    by (simp_all add: normalized_def)
  show ?thesis
  proof (cases "n_frames_in_ram (ram st) (xy_size (D # rest))")
    case (Inl e)
    with assms Inr shp r show ?thesis by (auto simp: run_def Let_def)
  next
    case n: (Inr n)
    show ?thesis
    proof (cases "partial_thickness D n")
      case (Inl e)
      with assms Inr shp r n show ?thesis by (auto simp: run_def Let_def)
    next
      case ts: (Inr ts)
      from run_unfold [OF Inr [unfolded shp] n ts] assms
      show ?thesis using Inr shp n ts
        by (auto split: prod.splits)
    qed
  qed
qed

lemma run_fm: "fm (fst (run st)) = fm (normalized st)"
proof -
  obtain st' tr res where r: "run st = (st', tr, res)" by (cases "run st")
  from run_cases [OF r] show ?thesis
    using r run_chunks_fm by fastforce
qed

lemma normalize_explicit:
  "normalize df =
     map (\<lambda>r. r\<lparr>Xs := Xs r - column_min (map Xs df),
                 Ys := Ys r - column_min (map Ys df),
                 Zs := Zs r - column_min (map Zs df)\<rparr>) df"
  by (simp add: normalize_def Let_def comp_def)

lemma column_min_Min:
  assumes "xs \<noteq> []"
  shows "column_min xs = Min (set xs)"
proof -
  from assms obtain x ys where "xs = x # ys" by (cases xs) auto
  then show ?thesis using Min.set_eq_fold [of x ys] by simp
qed

lemma n_frames_in_ram_nonneg:
  assumes "0 < xy" and "n_frames_in_ram r xy = Inr n"
  shows "0 \<le> n"
proof -
  have "0 \<le> (of_nat r / of_int xy / (3 / 2) :: rat)"
    using assms(1) by simp
  with assms show ?thesis
    by (auto simp: n_frames_in_ram_def Let_def split: if_splits)
qed

text \<open>
  C5. When the memory-budget computation yields \<open>n_frames_in_ram < 1\<close> for a plane of
  positive size (a single plane at 4 bytes per element exceeds the budget), \<open>run\<close>
  raises (the \<open>ZeroDivisionError\<close> of \<open>output_shape[0] // n_frames_in_ram\<close>) before any
  chunk is started: the output file is not removed, no buffer is allocated, no consumer
  is started and nothing is appended.
\<close>

theorem run_budget_error:
  assumes "output_shape (normalized st) = Inr shp"
    and "0 < xy_size shp"
    and "n_frames_in_ram (ram st) (xy_size shp) = Inr n"
    and "n < 1"
  shows "run st = (normalized st, [], Some ZeroDivisionError)"
proof -
  from assms(2,3) have "0 \<le> n" by (rule n_frames_in_ram_nonneg)
  with assms(4) have n0: "n = 0" by simp
  obtain D rest where shp: "shp = D # rest"
    using output_shape_nonempty [OF assms(1)] by (cases shp) auto
  have "partial_thickness D 0 = Inl ZeroDivisionError"
    by (simp add: partial_thickness_def)
  with assms(1,3) shp n0 show ?thesis
    by (simp add: run_def Let_def normalized_def)
qed

theorem run_budget_error_witness:
  "output_shape (normalized tight_runner) = Inr [10, 4, 6] \<and>
   0 < xy_size [10, 4, 6] \<and>
   n_frames_in_ram (ram tight_runner) (xy_size [10, 4, 6]) = Inr 0 \<and>
   fst (snd (run tight_runner)) = [] \<and>
   snd (snd (run tight_runner)) = Some ZeroDivisionError"
proof -
  have o: "output_shape (normalized tight_runner) = Inr [10, 4, 6]" by code_simp
  have p: "0 < xy_size [10, 4, 6]" by code_simp
  have n: "n_frames_in_ram (ram tight_runner) (xy_size [10, 4, 6]) = Inr 0"
    by code_simp
  from run_budget_error [OF o p n] o p n show ?thesis by simp
qed

subsection \<open>The large-file threshold on integers\<close>














subsection \<open>Lemmas on the tile reader\<close>

lemma select_pages_range:
  "0 \<le> s \<Longrightarrow> e \<le> int (length pages) \<Longrightarrow> k = nat (e - s) \<Longrightarrow>
   select_pages pages [s..e - 1] = Inr (take k (drop (nat s) pages))"
proof (induction k arbitrary: s)
  case 0
  then show ?case by simp
next
  case (Suc k)
  from Suc.prems have lt: "s < e" by linarith
  then have u: "[s..e - 1] = s # [s + 1..e - 1]"
    by (simp add: upto_rec1)
  have ih: "select_pages pages [s + 1..e - 1] = Inr (take k (drop (nat (s + 1)) pages))"
    using Suc.prems by (intro Suc.IH) linarith+
  have n: "nat s < length pages" using Suc.prems lt by linarith
  have "take (Suc k) (drop (nat s) pages) = pages ! nat s # take k (drop (Suc (nat s)) pages)"
    using n by (simp add: Cons_nth_drop_Suc [symmetric])
  moreover have "nat (s + 1) = Suc (nat s)" using Suc.prems by linarith
  ultimately show ?case
    using Suc.prems lt ih by (simp add: u Let_def)
qed

lemma frames_of_array_of: "frames_of (array_of ps) = ps"
proof (cases ps)
  case Nil
  then show ?thesis by (simp add: array_of_def)
next
  case (Cons p qs)
  have "concat (map frames_of (map Page xs)) = xs" for xs :: "'a list"
    by (induction xs) simp_all
  then show ?thesis using Cons by (cases qs) (simp_all add: array_of_def)
qed

lemma leading_axis_array_of: "2 \<le> length ps \<Longrightarrow> leading_axis (array_of ps) = Some (length ps)"
  by (cases ps; cases "tl ps") (auto simp: array_of_def leading_axis_def)

lemma frames_of_stack_arrays: "frames_of (Stack (map array_of fs)) = concat fs"
  by (induction fs) (simp_all add: frames_of_array_of)

lemma py_slice_range:
  "0 \<le> i \<Longrightarrow> i \<le> j \<Longrightarrow> j \<le> int (length xs) \<Longrightarrow>
   py_slice xs i j = take (nat (j - i)) (drop (nat i) xs)"
  by (simp add: py_slice_def Let_def min_def)

lemma concat_take_singletons:
  "list_all (\<lambda>f. length f = 1) fs \<Longrightarrow> concat (take k fs) = take k (concat fs)"
proof (induction fs arbitrary: k)
  case Nil
  then show ?case by simp
next
  case (Cons f fs)
  then obtain p where "f = [p]" by (cases f) auto
  with Cons show ?case by (cases k) simp_all
qed

lemma concat_drop_singletons:
  "list_all (\<lambda>f. length f = 1) fs \<Longrightarrow> concat (drop k fs) = drop k (concat fs)"
proof (induction fs arbitrary: k)
  case Nil
  then show ?case by simp
next
  case (Cons f fs)
  then obtain p where "f = [p]" by (cases f) auto
  with Cons show ?case by (cases k) simp_all
qed

lemma slice_single:
  assumes "\<not> glob_mode w" and "0 \<le> s" and "s < e" and "e \<le> nfrms_tw w"
  shows "\<exists>a. slice w s (Some e) = Inr a \<and>
             frames_of a = take (nat (e - s)) (drop (nat s) (logical_frames w)) \<and>
             leading_axis a = Some (nat (e - s))"
proof -
  let ?ps = "take (nat (e - s)) (drop (nat s) (tfile w))"
  have le: "e \<le> int (length (tfile w))" using assms by (simp add: nfrms_tw_def)
  have sp: "select_pages (tfile w) [s..e - 1] = Inr ?ps"
    using assms(2) le by (rule select_pages_range) simp
  have len: "length ?ps = nat (e - s)" using assms le by simp
  then have ne: "?ps \<noteq> []" using assms(3) by auto
  have as: "asarray (tfile w) [s..e - 1] = Inr (array_of ?ps)"
    using sp ne by (simp add: asarray_def)
  show ?thesis
  proof (cases "e - s = 1")
    case True
    with as assms(1) show ?thesis
      by (simp add: slice_def Let_def frames_of_array_of logical_frames_def leading_axis_def)
  next
    case False
    with assms(3) have "2 \<le> length ?ps" using len by linarith
    from leading_axis_array_of [OF this] as assms(1) False len show ?thesis
      by (simp add: slice_def Let_def frames_of_array_of logical_frames_def)
  qed
qed

lemma imread_equal_files:
  assumes "fs \<noteq> []" and "0 < k" and "list_all (\<lambda>f. length f = k) fs"
  shows "\<exists>a. imread fs = Inr a \<and> frames_of a = concat fs \<and>
             (2 \<le> length fs \<longrightarrow> leading_axis a = Some (length fs)) \<and>
             (length fs = 1 \<longrightarrow> a = array_of (hd fs))"
proof -
  from assms(1) obtain f gs where fs: "fs = f # gs" by (cases fs) auto
  have ne: "\<not> list_ex (\<lambda>g. g = []) fs"
    using assms(2,3) by (auto simp: list_ex_iff list_all_iff)
  have eq: "\<not> list_ex (\<lambda>g. length g \<noteq> length f) gs"
    using assms(3) fs by (auto simp: list_ex_iff list_all_iff)
  show ?thesis
  proof (cases "gs = []")
    case True
    with fs ne show ?thesis by (simp add: imread_def frames_of_array_of)
  next
    case False
    then have "imread fs = Inr (Stack (map array_of fs))"
      using fs ne eq by (simp add: imread_def)
    moreover have "2 \<le> length fs" using fs False by (cases gs) auto
    ultimately show ?thesis
      using frames_of_stack_arrays [of fs] by (simp add: leading_axis_def)
  qed
qed

lemma slice_glob:
  assumes "glob_mode w" and "flist w \<noteq> []" and "tfile w \<noteq> []"
    and "list_all (\<lambda>f. length f = length (tfile w)) (flist w)"
    and "0 \<le> s" and "e \<le> nfrms_tw w"
    and "s div int (length (tfile w)) < e div int (length (tfile w))"
  shows "\<exists>a. slice w s (Some e) = Inr a \<and>
             frames_of a =
               concat (take (nat (e div int (length (tfile w)) - s div int (length (tfile w))))
                         (drop (nat (s div int (length (tfile w)))) (flist w))) \<and>
             (e - s \<noteq> 1 \<and> 2 \<le> e div int (length (tfile w)) - s div int (length (tfile w)) \<longrightarrow>
                leading_axis a =
                  Some (nat (e div int (length (tfile w)) - s div int (length (tfile w))))) \<and>
             (e - s = 1 \<longrightarrow> leading_axis a = Some 1)"
proof -
  define k where "k = int (length (tfile w))"
  define L where "L = int (length (flist w))"
  have k0: "0 < k" using assms(3) by (simp add: k_def)
  have L0: "0 < L" using assms(2) by (simp add: L_def)
  have nf: "nfrms_tw w = k * L" using assms(1) by (simp add: nfrms_tw_def k_def L_def)
  have fpf: "nfrms_tw w div int (length (flist w)) = k"
    using L0 by (simp add: nf L_def [symmetric])
  have s0: "0 \<le> s div k" using assms(5) k0 by (simp add: pos_imp_zdiv_nonneg_iff)
  have "e \<le> k * L" using assms(6) nf by simp
  then have "e div k \<le> (k * L) div k"
    using k0 by (rule zdiv_mono1)
  then have eL: "e div k \<le> L" using k0 by simp
  have lt: "s div k < e div k" using assms(7) by (simp add: k_def)
  let ?fs = "take (nat (e div k - s div k)) (drop (nat (s div k)) (flist w))"
  have ps: "py_slice (flist w) (s div k) (e div k) = ?fs"
    using s0 lt eL by (intro py_slice_range) (simp_all add: L_def)
  have len: "length ?fs = nat (e div k - s div k)"
    using s0 lt eL by (simp add: L_def)
  then have ne: "?fs \<noteq> []" using lt by auto
  have "set ?fs \<subseteq> set (flist w)"
    by (meson set_take_subset set_drop_subset subset_trans)
  then have all: "list_all (\<lambda>f. length f = nat k) ?fs"
    using assms(4) by (auto simp: list_all_iff k_def)
  have "0 < nat k" using k0 by simp
  from imread_equal_files [OF ne this all] obtain a where
    a: "imread ?fs = Inr a" "frames_of a = concat ?fs"
       "2 \<le> length ?fs \<longrightarrow> leading_axis a = Some (length ?fs)"
    by blast
  have sl: "slice w s (Some e) = Inr (if e - s = 1 then Stack [a] else a)"
    using assms(1,2) k0 a(1) ps fpf by (simp add: slice_def Let_def k_def [symmetric])
  show ?thesis
    using sl a(2,3) len
    by (auto simp: k_def [symmetric] leading_axis_def)
qed

text \<open>
  C7 (as amended). For an open tile volume and a range with
  \<open>0 \<le> start_frame < end_frame \<le> nfrms\<close>: in single-container mode \<open>slice\<close> returns
  exactly the logical frames \<open>[start_frame, end_frame)\<close>, with a leading frame axis of
  that length; in multi-file mode it reads whole files over the file-index range
  \<open>[start_frame div frames_per_file, end_frame div frames_per_file)\<close>, which are exactly
  the logical frames \<open>[start_frame, end_frame)\<close> when every file holds a single frame;
  and when \<open>end_frame - start_frame = 1\<close> the result has a leading axis of length 1.
\<close>

theorem slice_logical_frames:
  assumes "0 \<le> start_frame" and "start_frame < end_frame" and "end_frame \<le> nfrms_tw w"
  shows
    "(\<not> glob_mode w \<longrightarrow>
        (\<exists>a. slice w start_frame (Some end_frame) = Inr a \<and>
           frames_of a =
             take (nat (end_frame - start_frame)) (drop (nat start_frame) (logical_frames w)) \<and>
           leading_axis a = Some (nat (end_frame - start_frame)))) \<and>
     (glob_mode w \<and> flist w \<noteq> [] \<and> length (tfile w) = 1 \<and>
      list_all (\<lambda>f. length f = 1) (flist w) \<longrightarrow>
        (\<exists>a. slice w start_frame (Some end_frame) = Inr a \<and>
           frames_of a =
             take (nat (end_frame - start_frame)) (drop (nat start_frame) (logical_frames w)) \<and>
           leading_axis a = Some (nat (end_frame - start_frame)))) \<and>
     (glob_mode w \<and> flist w \<noteq> [] \<and> tfile w \<noteq> [] \<and>
      list_all (\<lambda>f. length f = length (tfile w)) (flist w) \<and>
      start_frame div int (length (tfile w)) < end_frame div int (length (tfile w)) \<longrightarrow>
        (\<exists>a. slice w start_frame (Some end_frame) = Inr a \<and>
           frames_of a =
             concat (take (nat (end_frame div int (length (tfile w))
                                - start_frame div int (length (tfile w))))
                       (drop (nat (start_frame div int (length (tfile w)))) (flist w))) \<and>
           (end_frame - start_frame = 1 \<longrightarrow> leading_axis a = Some 1)))"
proof (intro conjI impI)
  assume "\<not> glob_mode w"
  then show "\<exists>a. slice w start_frame (Some end_frame) = Inr a \<and>
           frames_of a =
             take (nat (end_frame - start_frame)) (drop (nat start_frame) (logical_frames w)) \<and>
           leading_axis a = Some (nat (end_frame - start_frame))"
    using assms by (rule slice_single)
next
  assume h: "glob_mode w \<and> flist w \<noteq> [] \<and> tfile w \<noteq> [] \<and>
      list_all (\<lambda>f. length f = length (tfile w)) (flist w) \<and>
      start_frame div int (length (tfile w)) < end_frame div int (length (tfile w))"
  from slice_glob [of w start_frame end_frame] h assms
  show "\<exists>a. slice w start_frame (Some end_frame) = Inr a \<and>
           frames_of a =
             concat (take (nat (end_frame div int (length (tfile w))
                                - start_frame div int (length (tfile w))))
                       (drop (nat (start_frame div int (length (tfile w)))) (flist w))) \<and>
           (end_frame - start_frame = 1 \<longrightarrow> leading_axis a = Some 1)"
    by blast
next
  assume h: "glob_mode w \<and> flist w \<noteq> [] \<and> length (tfile w) = 1 \<and>
      list_all (\<lambda>f. length f = 1) (flist w)"
  then have one: "int (length (tfile w)) = 1" and ne: "tfile w \<noteq> []" by auto
  have all: "list_all (\<lambda>f. length f = length (tfile w)) (flist w)" using h by simp
  have lt: "start_frame div int (length (tfile w)) < end_frame div int (length (tfile w))"
    using assms(2) one by simp
  from slice_glob [OF _ _ ne all assms(1,3) lt] h obtain a where
    a: "slice w start_frame (Some end_frame) = Inr a"
       "frames_of a =
          concat (take (nat (end_frame - start_frame)) (drop (nat start_frame) (flist w)))"
       "end_frame - start_frame \<noteq> 1 \<and> 2 \<le> end_frame - start_frame \<longrightarrow>
          leading_axis a = Some (nat (end_frame - start_frame))"
       "end_frame - start_frame = 1 \<longrightarrow> leading_axis a = Some 1"
    unfolding one by auto
  have d: "list_all (\<lambda>f. length f = 1) (drop (nat start_frame) (flist w))"
    using h by (auto simp: list_all_iff dest: in_set_dropD)
  have "concat (take (nat (end_frame - start_frame)) (drop (nat start_frame) (flist w))) =
        take (nat (end_frame - start_frame)) (drop (nat start_frame) (concat (flist w)))"
    using concat_take_singletons [OF d] concat_drop_singletons [of "flist w"] h by simp
  moreover have "leading_axis a = Some (nat (end_frame - start_frame))"
    using a(3,4) assms(2) by (cases "end_frame - start_frame = 1") auto
  ultimately show "\<exists>a. slice w start_frame (Some end_frame) = Inr a \<and>
           frames_of a =
             take (nat (end_frame - start_frame)) (drop (nat start_frame) (logical_frames w)) \<and>
           leading_axis a = Some (nat (end_frame - start_frame))"
    using a(1,2) h by (simp add: logical_frames_def)
qed

theorem slice_logical_frames_witness:
  "(0::int) \<le> 1 \<and> (1::int) < 3 \<and> 3 \<le> nfrms_tw stack_volume \<and>
   3 \<le> nfrms_tw frame_files_volume \<and>
   (0::int) \<le> 2 \<and> (2::int) < 4 \<and> 4 \<le> nfrms_tw stack_files_volume \<and>
   (\<exists>a. slice stack_volume 1 (Some 3) = Inr a \<and> frames_of a = [1, 2] \<and>
        leading_axis a = Some 2) \<and>
   (\<exists>a. slice frame_files_volume 1 (Some 3) = Inr a \<and> frames_of a = [1, 2] \<and>
        leading_axis a = Some 2) \<and>
   (\<exists>a. slice stack_files_volume 2 (Some 4) = Inr a \<and> frames_of a = [2, 3]) \<and>
   slice stack_volume 2 (Some 3) = Inr (Stack [Page 2]) \<and>
   slice frame_files_volume 2 (Some 3) = Inr (Stack [Page 2])"
proof -
  have v: "3 \<le> nfrms_tw stack_volume" "3 \<le> nfrms_tw frame_files_volume"
    "4 \<le> nfrms_tw stack_files_volume"
    by (simp_all add: nfrms_tw_def stack_volume_def frame_files_volume_def
        stack_files_volume_def)
  have h: "(0::int) \<le> 1" "(1::int) < 3" "(0::int) \<le> 2" "(2::int) < 4"
    by simp_all
  have "\<exists>a. slice stack_volume 1 (Some 3) = Inr a \<and> frames_of a = [1, 2] \<and>
          leading_axis a = Some 2"
    using slice_logical_frames [OF h(1) h(2) v(1)]
    by (simp add: stack_volume_def logical_frames_def)
  moreover have "\<exists>a. slice frame_files_volume 1 (Some 3) = Inr a \<and> frames_of a = [1, 2] \<and>
          leading_axis a = Some 2"
    using slice_logical_frames [OF h(1) h(2) v(2)]
    by (simp add: frame_files_volume_def logical_frames_def)
  moreover have "\<exists>a. slice stack_files_volume 2 (Some 4) = Inr a \<and> frames_of a = [2, 3]"
    using slice_logical_frames [OF h(3) h(4) v(3)]
    by (simp add: stack_files_volume_def)
  moreover have "slice stack_volume 2 (Some 3) = Inr (Stack [Page 2])"
    "slice frame_files_volume 2 (Some 3) = Inr (Stack [Page 2])"
    by code_simp+
  ultimately show ?thesis using v h by simp
qed

text \<open>
  With two files of two frames, the range \<open>[1, 3)\<close> selects the file range \<open>[0, 1)\<close>:
  the result holds frames 0 and 1, not frames 1 and 2.
\<close>

theorem slice_whole_files_counterexample:
  "nfrms_tw stack_files_volume = 4 \<and>
   slice stack_files_volume 1 (Some 3) = Inr (Stack [Page 0, Page 1]) \<and>
   take 2 (drop 1 (logical_frames stack_files_volume)) = [1, 2]"
  by code_simp

text \<open>
  C8 (as amended). \<open>run\<close> never modifies the path and the frame count of a tile
  record; it translates the origins: after \<open>run\<close>, however it ends, each tile's \<open>Xs\<close>,
  \<open>Ys\<close> and \<open>Zs\<close> is its value at load minus the minimum of that column over the
  table, so the origins are unchanged when the three minima are already zero.
\<close>

theorem run_translates_origins:
  "data_frame (fm (fst (run st))) =
     map (\<lambda>r. r\<lparr>Xs := Xs r - column_min (map Xs (data_frame (fm st))),
                 Ys := Ys r - column_min (map Ys (data_frame (fm st))),
                 Zs := Zs r - column_min (map Zs (data_frame (fm st)))\<rparr>)
       (data_frame (fm st)) \<and>
   map name (data_frame (fm (fst (run st)))) = map name (data_frame (fm st)) \<and>
   map nfrms (data_frame (fm (fst (run st)))) = map nfrms (data_frame (fm st)) \<and>
   (data_frame (fm st) \<noteq> [] \<longrightarrow>
      column_min (map Xs (data_frame (fm st))) = Min (Xs ` set (data_frame (fm st))) \<and>
      column_min (map Ys (data_frame (fm st))) = Min (Ys ` set (data_frame (fm st))) \<and>
      column_min (map Zs (data_frame (fm st))) = Min (Zs ` set (data_frame (fm st)))) \<and>
   (column_min (map Xs (data_frame (fm st))) = 0 \<and>
    column_min (map Ys (data_frame (fm st))) = 0 \<and>
    column_min (map Zs (data_frame (fm st))) = 0 \<longrightarrow>
      data_frame (fm (fst (run st))) = data_frame (fm st))"
proof -
  have df: "data_frame (fm (fst (run st))) = normalize (data_frame (fm st))"
    by (simp add: run_fm normalized_def)
  have m: "data_frame (fm st) \<noteq> [] \<Longrightarrow>
      column_min (map f (data_frame (fm st))) = Min (f ` set (data_frame (fm st)))" for f :: "row \<Rightarrow> int"
    using column_min_Min [of "map f (data_frame (fm st))"] by simp
  show ?thesis
    unfolding df normalize_explicit using m
    by (simp add: comp_def map_idI)
qed

theorem run_translates_origins_witness:
  "data_frame (fm shifted_runner) \<noteq> [] \<and>
   data_frame (fm (fst (run shifted_runner))) = [tile_B\<lparr>Zs := 0\<rparr>] \<and>
   column_min (map Xs (data_frame (fm example_runner))) = 0 \<and>
   column_min (map Ys (data_frame (fm example_runner))) = 0 \<and>
   column_min (map Zs (data_frame (fm example_runner))) = 0 \<and>
   data_frame (fm (fst (run example_runner))) = [tile_A, tile_B]"
  using run_translates_origins [of shifted_runner] run_translates_origins [of example_runner]
  by (simp add: shifted_runner_def example_runner_def tile_A_def tile_B_def)

text \<open>
  A table whose only tile has \<open>Zs = 5\<close>: after \<open>run\<close> the tile's \<open>Zs\<close> is 0.
\<close>

theorem run_keeps_origins_counterexample:
  "data_frame (fm shifted_runner) = [\<lparr>name = ''B'', Xs = 0, Ys = 0, Zs = 5, nfrms = 10\<rparr>] \<and>
   data_frame (fm (fst (run shifted_runner))) =
     [\<lparr>name = ''B'', Xs = 0, Ys = 0, Zs = 0, nfrms = 10\<rparr>]"
  by code_simp

text \<open>
  C9. A buffer value that is an exact integer in the range of the integer output type
  is converted to that integer (rounding to nearest, then the cast), and reads back
  unchanged; a floating output type is cast without rounding.
\<close>

theorem to_dtype_exact:
  "(list_all (in_range (Int_dtype signed b)) vs \<longrightarrow>
      to_dtype (map of_int vs) (Int_dtype signed b) = map (\<lambda>v. Some (Int_elem v)) vs \<and>
      map elem_value (map Int_elem vs) = map of_int vs) \<and>
   to_dtype xs (Float_dtype b) = map (astype (Float_dtype b)) xs \<and>
   (32 \<le> b \<longrightarrow> to_dtype xs (Float_dtype b) = map (\<lambda>x. Some (Float_elem x)) xs)"
proof -
  have r: "rint (of_int v) = of_int v" for v
    by (simp add: rint_def)
  have a: "in_range (Int_dtype signed b) v \<Longrightarrow>
      astype (Int_dtype signed b) (of_int v) = Some (Int_elem v)" for v
    by (simp add: astype_def)
  have "list_all (in_range (Int_dtype signed b)) vs \<Longrightarrow>
      to_dtype (map of_int vs) (Int_dtype signed b) = map (\<lambda>v. Some (Int_elem v)) vs"
    by (induction vs) (simp_all add: to_dtype_def issubdtype_integer_def r a)
  moreover have "map elem_value (map Int_elem vs) = map of_int vs"
    by (simp add: elem_value_def comp_def)
  ultimately show ?thesis
    by (simp add: to_dtype_def issubdtype_integer_def astype_def)
qed

theorem to_dtype_exact_witness:
  "list_all (in_range (Int_dtype False 16)) [0, 7, 65535] \<and>
   to_dtype [0, 7, 65535] (Int_dtype False 16) =
     [Some (Int_elem 0), Some (Int_elem 7), Some (Int_elem 65535)] \<and>
   to_dtype [5 / 2, 7 / 2, 1 / 4] (Int_dtype False 16) =
     [Some (Int_elem 2), Some (Int_elem 4), Some (Int_elem 0)] \<and>
   to_dtype [5 / 2] (Float_dtype 32) = [Some (Float_elem (5 / 2))]"
proof -
  have i: "list_all (in_range (Int_dtype False 16)) [0, 7, 65535]"
    by (simp add: in_range_def)
  have h: "to_dtype [5 / 2, 7 / 2, 1 / 4] (Int_dtype False 16) =
     [Some (Int_elem 2), Some (Int_elem 4), Some (Int_elem 0)]"
    by code_simp
  from to_dtype_exact [of False 16 "[0, 7, 65535]" "[5 / 2]"]
    to_dtype_exact [of False 32 "[]" "[5 / 2]"] i h show ?thesis
    by (simp add: astype_def)
qed

subsection \<open>Lemmas on the output shape\<close>

lemma shape_update_head:
  assumes "3 \<le> length xs"
  shows "xs[0 := a, length xs - 2 := h, length xs - 1 := w] =
         a # (tl xs)[length xs - 3 := h, length xs - 2 := w]"
proof -
  from assms obtain x ys where xs: "xs = x # ys" and ys: "2 \<le> length ys"
    by (cases xs) auto
  from ys obtain k where k: "length ys = Suc (Suc k)"
    by (metis Suc_le_D numeral_2_eq_2 Suc_le_mono)
  show ?thesis by (simp add: xs k)
qed

lemma output_shape_explicit:
  assumes "data_frame (fm st) \<noteq> []" and "3 \<le> length (tile_shape st)"
  shows "output_shape st =
           Inr (depth st # (tl (tile_shape st))
                  [length (tile_shape st) - 3 := full_height (fm st),
                   length (tile_shape st) - 2 := full_width (fm st)])"
proof -
  have "output_shape st =
          Inr ((tile_shape st)[0 := depth st,
                               length (tile_shape st) - 2 := full_height (fm st),
                               length (tile_shape st) - 1 := full_width (fm st)])"
    using assms
    by (auto simp: output_shape_def depth_def set_item_def Let_def nat_diff_distrib
        nat_add_distrib algebra_simps split: option.splits)
  then show ?thesis using shape_update_head [OF assms(2)] by simp
qed

lemma output_shape_data_frame: "output_shape st = Inr shp \<Longrightarrow> data_frame (fm st) \<noteq> []"
  by (auto simp: output_shape_def Let_def split: if_splits)

lemma normalize_empty: "(normalize df = []) = (df = [])"
  by (simp add: normalize_def Let_def)

lemma partial_thickness_zero: "n \<noteq> 0 \<Longrightarrow> partial_thickness 0 n = Inr []"
  by (simp add: partial_thickness_def)

text \<open>
  C10 (as amended). \<open>run\<close> leaves the window moved: after a run that returns, over a
  depth \<open>D \<ge> 0\<close> with a chunk size \<open>n \<ge> 1\<close> (and with \<open>zmax\<close> set beforehand when
  \<open>D = 0\<close>), \<open>zmin\<close> is its earlier value plus \<open>D\<close> and \<open>zmax\<close> equals that \<open>zmin\<close>,
  so the output depth is 0; a second \<open>run\<close> then removes the output file and appends
  nothing.
\<close>

theorem run_leaves_empty_window:
  assumes "output_shape (normalized st) = Inr (D # rest)"
    and "n_frames_in_ram (ram st) (xy_size (D # rest)) = Inr n"
    and "1 \<le> n" and "0 \<le> D" and "0 < D \<or> zmax st \<noteq> None"
    and "3 \<le> length (tile_shape st)"
    and "run st = (st', tr, None)"
  shows "zmin st' = zmin st + D \<and>
         zmax st' = Some (zmin st') \<and>
         output_shape st' = Inr (0 # rest) \<and>
         run st' = (normalized st', [Remove_output], None) \<and>
         zmin (normalized st') = zmin st' \<and>
         zmax (normalized st') = zmax st'"
proof -
  define ts where
    "ts = replicate (nat (D div n)) n @ (if D mod n \<noteq> 0 then [D mod n] else [])"
  let ?big = "bigtiff_decision (total_byte_size (D # rest) (dtype st))"
  have pt: "partial_thickness D n = Inr ts"
    using assms(3) by (simp add: partial_thickness_def Let_def ts_def)
  have sum: "sum_list ts = D"
    unfolding ts_def using assms(3,4) by (rule partial_thickness_sum)
  obtain st2 evs res where rc: "run_chunks (normalized st) ?big ts = (st2, evs, res)"
    by (cases "run_chunks (normalized st) ?big ts")
  from run_unfold [OF assms(1,2) pt] rc assms(7)
  have eq: "st' = st2" "res = None" by simp_all
  note s = run_chunks_success [OF rc [unfolded eq(2)], folded eq(1)]
  have f: "fm st' = fm (normalized st)"
    using run_chunks_fm [OF rc] eq(1) by simp
  have nz: "zmin (normalized st) = zmin st" "zmax (normalized st) = zmax st"
    "tile_shape (normalized st) = tile_shape st" "ram (normalized st) = ram st"
    by (simp_all add: normalized_def)
  have df: "data_frame (fm (normalized st)) \<noteq> []"
    using assms(1) by (rule output_shape_data_frame)
  have len: "3 \<le> length (tile_shape (normalized st))"
    using assms(6) nz by simp
  note o0 = output_shape_explicit [OF df len]
  from o0 assms(1) have D: "D = depth (normalized st)"
    and rest: "rest = (tl (tile_shape st))
                  [length (tile_shape st) - 3 := full_height (fm (normalized st)),
                   length (tile_shape st) - 2 := full_width (fm (normalized st))]"
    by (simp_all add: nz)
  have z1: "zmin st' = zmin st + D"
    using s sum nz by simp
  have z2: "zmax st' = Some (zmin st')"
  proof (cases "0 < D")
    case True
    then have "ts \<noteq> []" using sum by auto
    then show ?thesis using s sum nz by simp
  next
    case False
    with assms(4,5) have D0: "D = 0" and "zmax st \<noteq> None" by auto
    then obtain zm where zm: "zmax st = Some zm" by auto
    from D D0 zm have "zm = zmin st" by (simp add: depth_def nz)
    moreover from D0 assms(3) have "ts = []" by (simp add: ts_def)
    ultimately show ?thesis using s z1 D0 zm nz by simp
  qed
  have ts': "tile_shape st' = tile_shape st" "ram st' = ram st"
    using s nz by simp_all
  have df': "data_frame (fm st') \<noteq> []" using df f by simp
  have len': "3 \<le> length (tile_shape st')" using assms(6) ts' by simp
  have o1: "output_shape st' = Inr (0 # rest)"
    using output_shape_explicit [OF df' len'] z2
    by (simp add: depth_def rest ts' f)
  let ?st'' = "normalized st'"
  have nz': "zmin ?st'' = zmin st'" "zmax ?st'' = zmax st'"
    "tile_shape ?st'' = tile_shape st'" "ram ?st'' = ram st'"
    "full_height (fm ?st'') = full_height (fm st')" "full_width (fm ?st'') = full_width (fm st')"
    by (simp_all add: normalized_def)
  have df'': "data_frame (fm ?st'') \<noteq> []"
    using df' by (simp add: normalized_def normalize_empty)
  have len'': "3 \<le> length (tile_shape ?st'')" using len' nz' by simp
  have o2: "output_shape ?st'' = Inr (0 # rest)"
    using output_shape_explicit [OF df'' len''] z2
    by (simp add: depth_def rest ts' f nz')
  have n2: "n_frames_in_ram (ram st') (xy_size (0 # rest)) = Inr n"
    using assms(2) ts' by (simp add: xy_size_def)
  have p0: "partial_thickness 0 n = Inr []"
    using assms(3) by (simp add: partial_thickness_zero)
  have "run st' = (normalized st', [Remove_output], None)"
    using run_unfold [OF o2 n2 p0] by simp
  with z1 z2 o1 nz' show ?thesis by simp
qed

theorem run_leaves_empty_window_witness:
  "zmin (fst (run example_runner)) = 10 \<and>
   zmax (fst (run example_runner)) = Some 10 \<and>
   output_shape (fst (run example_runner)) = Inr [0, 4, 6] \<and>
   fst (snd (run (fst (run example_runner)))) = [Remove_output] \<and>
   snd (snd (run (fst (run example_runner)))) = None"
proof -
  have "snd (snd (run example_runner)) = None" by code_simp
  then have r: "run example_runner =
      (fst (run example_runner), fst (snd (run example_runner)), None)"
    by (cases "run example_runner") simp
  have o: "output_shape (normalized example_runner) = Inr (10 # [4, 6])" by code_simp
  have n: "n_frames_in_ram (ram example_runner) (xy_size [10, 4, 6]) = Inr 4" by code_simp
  have z: "zmin example_runner = 0" "zmax example_runner = Some 10"
    "length (tile_shape example_runner) = 3"
    by (simp_all add: example_runner_def)
  from run_leaves_empty_window [OF o n _ _ _ _ r] z show ?thesis
    by simp
qed

text \<open>
  For the window \<open>[10, 7)\<close> the depth is \<open>-3\<close>; the run returns, appends one plane, and
  leaves \<open>zmin\<close> at 11, which is not \<open>10 + (-3)\<close>.
\<close>

theorem run_window_counterexample:
  "output_shape (normalized reversed_runner) = Inr [- 3, 4, 6] \<and>
   zmin reversed_runner = 10 \<and>
   snd (snd (run reversed_runner)) = None \<and>
   zmin (fst (run reversed_runner)) = 11 \<and>
   appends (fst (snd (run reversed_runner))) = [Imsave [1, 4, 6] (Int_dtype False 16) False]"
  by code_simp

end
